theory Spec2Isabelle
  imports Complex_Main "HOL-Library.AList"
begin

section \<open>Python values shared by the models\<close>

text \<open>
  Every exception the modelled code can raise is a value. The string carried by an
  error is the file name, key or message the source puts into it.
\<close>

datatype error =
    ValueError string
  | KeyError string
  | AssertionError string
  | TypeError string
  | RuntimeError string
  | FileNotFoundError string
  | IndexError string
  | AttributeError string
  | ZeroDivisionError

text \<open>
  A Python \<open>dict\<close> is an association list in insertion order: \<open>d[k] = v\<close> replaces
  the value in place when the key is present and appends the pair otherwise, which is
  what \<^const>\<open>AList.update\<close> does. A dict comprehension inserts its items one by one.
\<close>

type_synonym ('k, 'v) dict = "('k \<times> 'v) list"

definition dict_values :: "('k, 'v) dict \<Rightarrow> 'v list" where
  "dict_values d = map snd d"

definition dict_of_items :: "('k \<times> 'v) list \<Rightarrow> ('k, 'v) dict" where
  "dict_of_items kvs = foldl (\<lambda>d kv. AList.update (fst kv) (snd kv) d) [] kvs"

section \<open>streaming\_checkpoints.py: size strings\<close>

text \<open>
  \<open>re.search(r'(\d+)(.*)', size)\<close>. The search is not anchored: it skips to the first
  decimal digit of the string. Group 1 is the longest run of digits from there, group 2
  the rest of the line (\<open>.\<close> does not match a newline). There is no match exactly when
  the string has no digit. Strings are byte strings here, so \<open>\d\<close> is an ASCII digit.
\<close>

definition is_digit :: "char \<Rightarrow> bool" where
  "is_digit c = (48 \<le> (of_char c :: nat) \<and> (of_char c :: nat) \<le> 57)"

definition re_search_digits_rest :: "string \<Rightarrow> (string \<times> string) option" where
  "re_search_digits_rest s =
     (case dropWhile (\<lambda>c. \<not> is_digit c) s of
        [] \<Rightarrow> None
      | d # ds \<Rightarrow>
          Some (takeWhile is_digit (d # ds),
                takeWhile (\<lambda>c. c \<noteq> CHR 0x0A) (dropWhile is_digit (d # ds))))"

text \<open>\<open>int(match.group(1))\<close> on a string of decimal digits.\<close>

definition digit_val :: "char \<Rightarrow> nat" where
  "digit_val c = of_char c - 48"

definition int_of_digits :: "string \<Rightarrow> nat" where
  "int_of_digits ds = foldl (\<lambda>a c. 10 * a + digit_val c) 0 ds"

text \<open>
  Modelled from the spec: \<open>convert_byte_unit\<close> is imported from
  \<open>cerebras_appliance.utils.units\<close>, which is not among the sources. The spec calls it
  a byte-unit conversion utility; converting \<open>num\<close> of a source unit to bytes multiplies
  by the width of the unit, and an unknown unit raises. The table of units is a
  parameter: \<open>units u\<close> is the width in bytes of unit \<open>u\<close>, or \<open>None\<close>.
\<close>

definition convert_byte_unit :: "(string \<Rightarrow> nat option) \<Rightarrow> nat \<Rightarrow> string \<Rightarrow> error + int" where
  "convert_byte_unit units num src_unit =
     (case units src_unit of
        None \<Rightarrow> Inl (ValueError src_unit)
      | Some w \<Rightarrow> Inr (int (num * w)))"

text \<open>
  Modelled from the spec: a table with the decimal and the binary units of the
  docstring's examples (\<open>"10GB"\<close>, \<open>"10GiB"\<close> is 10737418240 bytes), used where a
  concrete table is needed.
\<close>

definition byte_units :: "string \<Rightarrow> nat option" where
  "byte_units u =
     (if u = ''B'' then Some 1
      else if u = ''KB'' then Some 1000
      else if u = ''MB'' then Some 1000000
      else if u = ''GB'' then Some 1000000000
      else if u = ''TB'' then Some 1000000000000
      else if u = ''KiB'' then Some 1024
      else if u = ''MiB'' then Some 1048576
      else if u = ''GiB'' then Some 1073741824
      else if u = ''TiB'' then Some 1099511627776
      else None)"

datatype size_arg = SizeInt int | SizeStr string

definition invalid_size_msg :: "string \<Rightarrow> string" where
  "invalid_size_msg sz =
     ''size '' @ [CHR 0x27] @ sz @ [CHR 0x27] @
     '' is not in a valid format. Use an integer followed by the unit, e.g., '' @
     [CHR 0x27] @ ''10GB'' @ [CHR 0x27] @ ''.''"

text \<open>
  \<open>convert_file_size_to_int\<close>: an \<open>int\<close> is returned as it is. For a string, no match
  raises \<open>ValueError\<close>, and so does any exception of the conversion (the bare
  \<open>except\<close>).
\<close>

definition convert_file_size_to_int :: "(string \<Rightarrow> nat option) \<Rightarrow> size_arg \<Rightarrow> error + int" where
  "convert_file_size_to_int units sz =
     (case sz of
        SizeInt n \<Rightarrow> Inr n
      | SizeStr s \<Rightarrow>
          (case re_search_digits_rest s of
             None \<Rightarrow> Inl (ValueError (invalid_size_msg s))
           | Some (g1, g2) \<Rightarrow>
               (case convert_byte_unit units (int_of_digits g1) g2 of
                  Inl e \<Rightarrow> Inl (ValueError (invalid_size_msg s))
                | Inr v \<Rightarrow> Inr v)))"

section \<open>streaming\_checkpoints.py: StreamingShardedHFWriter\<close>

text \<open>
  What the writer reads of a tensor is its element count (\<open>numel()\<close>) and its dtype.
  \<open>dtype_byte_size\<close> has three branches: \<open>torch.bool\<close> is an eighth of a byte, a
  floating-point or an integer dtype is its number of bits over eight. The sizes are
  powers of two, so the float product \<open>numel * size\<close> is exact and is modelled by a
  rational.
\<close>

datatype dtype = Bool | Floating nat | Integral nat

record wtensor =
  numel :: nat
  dtype :: dtype
  elems :: "int list"

definition dtype_byte_size :: "dtype \<Rightarrow> rat" where
  "dtype_byte_size d =
     (case d of
        Bool \<Rightarrow> 1 / 8
      | Floating bits \<Rightarrow> of_nat bits / 8
      | Integral bits \<Rightarrow> of_nat bits / 8)"

text \<open>\<open>math.ceil(value.numel() * dtype_byte_size(value.dtype))\<close>\<close>

definition weight_size :: "wtensor \<Rightarrow> int" where
  "weight_size v = \<lceil>of_nat (numel v) * dtype_byte_size (dtype v)\<rceil>"

text \<open>The number of bits of one element, eight times \<open>dtype_byte_size\<close>.\<close>

definition dtype_bits :: "dtype \<Rightarrow> nat" where
  "dtype_bits d = (case d of Bool \<Rightarrow> 1 | Floating b \<Rightarrow> b | Integral b \<Rightarrow> b)"

text \<open>
  The writer object, together with the files of its checkpoint directory: \<open>files\<close>
  maps the name of a shard file to the dict saved in it, \<open>index_file\<close> is the manifest
  (\<open>total_size\<close> and \<open>weight_map\<close>) once written, \<open>warnings\<close> is what was logged.
\<close>

record writer =
  weight_map :: "(string, string) dict"
  current_file_number :: nat
  last_file_number :: nat
  total_shards_finalized :: nat
  active_file_name :: string
  active_file_data :: "(string, wtensor) dict"
  file_size :: "(string, int) dict"
  dirty :: bool
  max_shard_size :: int
  files :: "string \<rightharpoonup> (string, wtensor) dict"
  index_file :: "(int \<times> (string, string) dict) option"
  warnings :: "string list"

text \<open>
  An operation of the writer returns the new writer, or the exception raised together
  with the writer as it is at the raise.
\<close>

type_synonym 'a raised = "(error \<times> writer) + 'a"

text \<open>\<open>f"{n:05d}"\<close>: the decimal digits of \<open>n\<close>, padded with zeros to five characters.\<close>

definition digit_char :: "nat \<Rightarrow> char" where
  "digit_char d = char_of (48 + d)"

fun decimal :: "nat \<Rightarrow> string" where
  "decimal n = (if n < 10 then [digit_char n] else decimal (n div 10) @ [digit_char (n mod 10)])"

declare decimal.simps [simp del]

definition fmt05d :: "nat \<Rightarrow> string" where
  "fmt05d n = replicate (5 - length (decimal n)) (CHR ''0'') @ decimal n"

definition get_filename :: "nat \<Rightarrow> nat \<Rightarrow> string" where
  "get_filename file_number total_shards =
     ''pytorch_model-'' @ fmt05d (file_number + 1) @ ''-of-'' @ fmt05d total_shards @ ''.bin''"

text \<open>
  \<open>__init__\<close>, after \<open>os.mkdir\<close> has made the (new, empty) checkpoint directory.
\<close>

definition new_writer :: "int \<Rightarrow> writer" where
  "new_writer max_size =
     \<lparr> weight_map = [], current_file_number = 0, last_file_number = 0,
       total_shards_finalized = 0, active_file_name = get_filename 0 0,
       active_file_data = [], file_size = [(get_filename 0 0, 0)], dirty = False,
       max_shard_size = max_size, files = Map.empty, index_file = None, warnings = [] \<rparr>"

definition hf_init :: "(string \<Rightarrow> nat option) \<Rightarrow> size_arg \<Rightarrow> error + writer" where
  "hf_init units shard_size =
     (case convert_file_size_to_int units shard_size of
        Inl e \<Rightarrow> Inl e
      | Inr m \<Rightarrow> Inr (new_writer m))"

text \<open>\<open>_flush\<close>: \<open>torch.save\<close> of the active shard, when it is dirty.\<close>

definition flush :: "writer \<Rightarrow> writer" where
  "flush w =
     (if dirty w
      then w\<lparr>files := (files w)(active_file_name w \<mapsto> active_file_data w), dirty := False\<rparr>
      else w)"

text \<open>
  \<open>_switch_shards\<close>: \<open>torch.load\<close> raises when the file is not there; the active data
  has been deleted by then.
\<close>

definition switch_shards :: "writer \<Rightarrow> string \<Rightarrow> writer raised" where
  "switch_shards w new_file =
     (let w1 = (flush w)\<lparr>active_file_name := new_file\<rparr> in
      case files w1 new_file of
        None \<Rightarrow> Inl (FileNotFoundError new_file, w1\<lparr>active_file_data := []\<rparr>)
      | Some d \<Rightarrow> Inr (w1\<lparr>active_file_data := d\<rparr>))"

definition hf_getitem :: "writer \<Rightarrow> string \<Rightarrow> (wtensor \<times> writer) raised" where
  "hf_getitem w key =
     (case map_of (weight_map w) key of
        None \<Rightarrow> Inl (KeyError key, w)
      | Some file \<Rightarrow>
          (case (if file \<noteq> active_file_name w then switch_shards w file else Inr w) of
             Inl e \<Rightarrow> Inl e
           | Inr w1 \<Rightarrow>
               (case map_of (active_file_data w1) key of
                  None \<Rightarrow> Inl (KeyError key, w1)
                | Some v \<Rightarrow> Inr (v, w1))))"

definition update_warning :: "string \<Rightarrow> string \<Rightarrow> string" where
  "update_warning key file =
     ''Updating '' @ key @ '' is causing shard '' @ file @ '' to be larger than limit''"

text \<open>\<open>__setitem__\<close>, the branch of a key that is in \<open>weight_map\<close>.\<close>

definition setitem_update :: "writer \<Rightarrow> string \<Rightarrow> wtensor \<Rightarrow> string \<Rightarrow> writer raised" where
  "setitem_update w key val file =
     (case (if active_file_name w \<noteq> file then switch_shards w file else Inr w) of
        Inl e \<Rightarrow> Inl e
      | Inr w1 \<Rightarrow>
          (case map_of (active_file_data w1) key of
             None \<Rightarrow> Inl (KeyError key, w1)
           | Some old_value \<Rightarrow>
               (let delta_size = weight_size val - weight_size old_value in
                case map_of (file_size w1) (active_file_name w1) of
                  None \<Rightarrow> Inl (KeyError (active_file_name w1), w1)
                | Some sz \<Rightarrow>
                    (let w2 = (if sz + delta_size > max_shard_size w1
                               then w1\<lparr>warnings := warnings w1 @
                                      [update_warning key (active_file_name w1)]\<rparr>
                               else w1)
                     in Inr (w2\<lparr>active_file_data := AList.update key val (active_file_data w2),
                                weight_map := AList.update key (active_file_name w2) (weight_map w2),
                                file_size := AList.update (active_file_name w2) (sz + delta_size)
                                               (file_size w2),
                                dirty := True\<rparr>)))))"

text \<open>The start of a new shard, when the new weight tips the active one over the limit.\<close>

definition new_shard :: "writer \<Rightarrow> writer" where
  "new_shard w =
     (let w1 = flush w;
          n = last_file_number w1 + 1;
          name = get_filename n (total_shards_finalized w1)
      in w1\<lparr>last_file_number := n, current_file_number := n, active_file_data := [],
             active_file_name := name, file_size := AList.update name 0 (file_size w1)\<rparr>)"

text \<open>\<open>__setitem__\<close>, the branch of a key that is not in \<open>weight_map\<close>.\<close>

definition setitem_new :: "writer \<Rightarrow> string \<Rightarrow> wtensor \<Rightarrow> writer raised" where
  "setitem_new w key val =
     (case (if current_file_number w \<noteq> last_file_number w
            then switch_shards w (get_filename (last_file_number w) (total_shards_finalized w))
            else Inr w) of
        Inl e \<Rightarrow> Inl e
      | Inr w1 \<Rightarrow>
          (case map_of (file_size w1) (active_file_name w1) of
             None \<Rightarrow> Inl (KeyError (active_file_name w1), w1)
           | Some sz \<Rightarrow>
               (let w2 = (if sz + weight_size val > max_shard_size w1 then new_shard w1 else w1);
                    w3 = w2\<lparr>active_file_data := AList.update key val (active_file_data w2),
                             weight_map := AList.update key (active_file_name w2) (weight_map w2)\<rparr>
                in case map_of (file_size w3) (active_file_name w3) of
                     None \<Rightarrow> Inl (KeyError (active_file_name w3), w3)
                   | Some sz' \<Rightarrow>
                       Inr (w3\<lparr>file_size := AList.update (active_file_name w3)
                                                (sz' + weight_size val) (file_size w3),
                                dirty := True\<rparr>))))"

definition hf_setitem :: "writer \<Rightarrow> string \<Rightarrow> wtensor \<Rightarrow> writer raised" where
  "hf_setitem w key val =
     (case map_of (weight_map w) key of
        Some file \<Rightarrow> setitem_update w key val file
      | None \<Rightarrow> setitem_new w key val)"

text \<open>
  \<open>os.rename(src, dst)\<close> raises when \<open>src\<close> does not exist and replaces \<open>dst\<close>
  otherwise. The loop of \<open>save\<close> renames in the order of \<open>file_renames.items()\<close> and
  stops at the first exception.
\<close>

definition os_rename :: "(string \<rightharpoonup> 'a) \<Rightarrow> string \<Rightarrow> string \<Rightarrow> error + (string \<rightharpoonup> 'a)" where
  "os_rename fs src dst =
     (case fs src of
        None \<Rightarrow> Inl (FileNotFoundError src)
      | Some d \<Rightarrow> Inr ((fs(src := None))(dst \<mapsto> d)))"

fun rename_all :: "(string \<rightharpoonup> 'a) \<Rightarrow> (string \<times> string) list \<Rightarrow> (error \<times> (string \<rightharpoonup> 'a)) + (string \<rightharpoonup> 'a)" where
  "rename_all fs [] = Inr fs"
| "rename_all fs ((prev_file, new_file) # rest) =
     (case os_rename fs prev_file new_file of
        Inl e \<Rightarrow> Inl (e, fs)
      | Inr fs' \<Rightarrow> rename_all fs' rest)"

text \<open>\<open>file_renames[prev_file]\<close> for each file of a list, a \<open>KeyError\<close> at the first miss.\<close>

fun lookup_all :: "(string, string) dict \<Rightarrow> string list \<Rightarrow> error + string list" where
  "lookup_all r [] = Inr []"
| "lookup_all r (f # fs) =
     (case map_of r f of
        None \<Rightarrow> Inl (KeyError f)
      | Some f' \<Rightarrow> (case lookup_all r fs of Inl e \<Rightarrow> Inl e | Inr fs' \<Rightarrow> Inr (f' # fs')))"

definition hf_save :: "writer \<Rightarrow> writer raised" where
  "hf_save w =
     (let w1 = flush w;
          total_size = sum_list (dict_values (file_size w1));
          new_total_shards = last_file_number w1 + 1;
          write_index = (\<lambda>w'. w'\<lparr>index_file := Some (total_size, weight_map w')\<rparr>)
      in if total_shards_finalized w1 \<noteq> new_total_shards
         then
           (let file_renames = dict_of_items
                  (map (\<lambda>i. (get_filename i (total_shards_finalized w1),
                              get_filename i new_total_shards)) [0..<new_total_shards])
            in case rename_all (files w1) file_renames of
                 Inl (e, fs) \<Rightarrow> Inl (e, w1\<lparr>files := fs\<rparr>)
               | Inr fs \<Rightarrow>
                   (let w2 = w1\<lparr>files := fs\<rparr> in
                    case lookup_all file_renames (map snd (weight_map w2)) of
                      Inl e \<Rightarrow> Inl (e, w2)
                    | Inr new_files \<Rightarrow>
                        (let w3 = w2\<lparr>weight_map :=
                                        dict_of_items (zip (map fst (weight_map w2)) new_files)\<rparr>
                         in case lookup_all file_renames (map fst (file_size w3)) of
                              Inl e \<Rightarrow> Inl (e, w3)
                            | Inr new_names \<Rightarrow>
                                Inr (write_index
                                  (w3\<lparr>file_size :=
                                         dict_of_items (zip new_names (map snd (file_size w3))),
                                       total_shards_finalized := new_total_shards\<rparr>)))))
         else Inr (write_index w1))"

text \<open>A session with the writer: its operations in order, up to the first exception.\<close>

datatype hf_op = SetItem string wtensor | GetItem string | Save

definition hf_step :: "writer \<Rightarrow> hf_op \<Rightarrow> writer raised" where
  "hf_step w op =
     (case op of
        SetItem key val \<Rightarrow> hf_setitem w key val
      | GetItem key \<Rightarrow> (case hf_getitem w key of Inl e \<Rightarrow> Inl e | Inr (v, w') \<Rightarrow> Inr w')
      | Save \<Rightarrow> hf_save w)"

fun hf_run :: "writer \<Rightarrow> hf_op list \<Rightarrow> writer raised" where
  "hf_run w [] = Inr w"
| "hf_run w (op # ops) = (case hf_step w op of Inl e \<Rightarrow> Inl e | Inr w' \<Rightarrow> hf_run w' ops)"

section \<open>StreamingShardedHFWriter: invariant\<close>

text \<open>
  The shards a writer knows are numbered up to \<open>last_file_number\<close> and named with
  the finalized total. A key of \<open>weight_map\<close> is held by the active shard in memory or by
  a shard file that contains it.
\<close>

definition shard_names :: "writer \<Rightarrow> string set" where
  "shard_names w = (\<lambda>i. get_filename i (total_shards_finalized w)) ` {..last_file_number w}"

definition on_disk :: "writer \<Rightarrow> string \<Rightarrow> string \<Rightarrow> bool" where
  "on_disk w k f = (\<exists>d. files w f = Some d \<and> map_of d k \<noteq> None)"

definition wf_writer :: "writer \<Rightarrow> bool" where
  "wf_writer w \<longleftrightarrow>
     distinct (map fst (weight_map w)) \<and> distinct (map fst (file_size w)) \<and>
     dom (map_of (file_size w)) \<subseteq> shard_names w \<and>
     ran (map_of (weight_map w)) \<subseteq> dom (map_of (file_size w)) \<and>
     total_shards_finalized w \<le> last_file_number w + 1 \<and>
     current_file_number w = last_file_number w \<and>
     (\<exists>j t. active_file_name w = get_filename j t \<and> t \<le> total_shards_finalized w) \<and>
     (\<forall>k f. map_of (weight_map w) k = Some f \<longrightarrow>
        (f = active_file_name w \<longrightarrow> map_of (active_file_data w) k \<noteq> None) \<and>
        (f \<noteq> active_file_name w \<or> \<not> dirty w \<longrightarrow> on_disk w k f))"

text \<open>The state in which an existing key is updated or read: its shard is the active one.\<close>

definition at_shard :: "writer \<Rightarrow> string \<Rightarrow> writer" where
  "at_shard w f =
     (if active_file_name w = f then w
      else (flush w)\<lparr>active_file_name := f, active_file_data := the (files (flush w) f)\<rparr>)"

text \<open>The renaming of \<open>save\<close>: shard \<open>i\<close> of \<open>t\<close> becomes shard \<open>i\<close> of \<open>n\<close>.\<close>

definition renames :: "nat \<Rightarrow> nat \<Rightarrow> (string \<times> string) list" where
  "renames t n = map (\<lambda>i. (get_filename i t, get_filename i n)) [0..<n]"

text \<open>A tensor of \<open>n\<close> elements of \<open>torch.int8\<close>: \<open>n\<close> bytes.\<close>

definition int8_tensor :: "nat \<Rightarrow> wtensor" where
  "int8_tensor n = \<lparr>numel = n, dtype = Integral 8, elems = replicate n 0\<rparr>"

text \<open>A session that only inserts: one \<open>__setitem__\<close> for each pair, in order.\<close>

definition inserts :: "(string \<times> wtensor) list \<Rightarrow> hf_op list" where
  "inserts kvs = map (\<lambda>kv. SetItem (fst kv) (snd kv)) kvs"

text \<open>The inserted tensors that \<open>weight_map\<close> places in shard \<open>f\<close>.\<close>

definition shard_tensors :: "writer \<Rightarrow> (string \<times> wtensor) list \<Rightarrow> string \<Rightarrow> (string \<times> wtensor) list" where
  "shard_tensors w kvs f = filter (\<lambda>kv. map_of (weight_map w) (fst kv) = Some f) kvs"

definition insert_inv :: "(string \<times> wtensor) list \<Rightarrow> writer \<Rightarrow> bool" where
  "insert_inv kvs w \<longleftrightarrow>
     distinct (map fst (file_size w)) \<and> dom (map_of (file_size w)) = shard_names w \<and>
     current_file_number w = last_file_number w \<and>
     active_file_name w = get_filename (last_file_number w) (total_shards_finalized w) \<and>
     0 \<le> max_shard_size w \<and>
     (\<forall>k f. map_of (weight_map w) k = Some f \<longrightarrow> f \<in> shard_names w \<and> k \<in> fst ` set kvs) \<and>
     (\<forall>f s. map_of (file_size w) f = Some s \<longrightarrow>
        s = sum_list (map (weight_size \<circ> snd) (shard_tensors w kvs f)) \<and>
        (s \<le> max_shard_size w \<or>
         (\<exists>kv. shard_tensors w kvs f = [kv] \<and> max_shard_size w < weight_size (snd kv))))"

section \<open>streaming\_checkpoints.py: StreamingCSWriterView\<close>

text \<open>
  The state of a view is the skeleton of a checkpoint: a \<open>StreamingCSLeaf\<close> marker where
  a tensor was saved, and a dict, a list or a tuple of skeletons elsewhere. A key is a
  string or an integer (the index of a list). A value that is assigned is a tensor (any
  value that is not a dict, a list or a tuple; the number names it) or a dict, list or
  tuple of values.
\<close>

datatype key = StrKey string | IntKey int

datatype node = SLeaf | SDict "(key \<times> node) list" | SList "node list" | STuple "node list"

datatype pyvalue =
    Tensor nat
  | VDict "(key \<times> pyvalue) list"
  | VList "pyvalue list"
  | VTuple "pyvalue list"

record view =
  state :: node
  prefix :: "key list"

text \<open>The H5 file: the tensor saved under each name.\<close>

type_synonym h5file = "string \<rightharpoonup> nat"

text \<open>
  \<open>key in self.state\<close>. For a dict this asks for the key. For a list or a tuple it asks
  whether an element equals the key, and the elements of a state are leaf markers,
  dicts, lists and tuples, none of which equals a string or an integer. A leaf marker
  is not iterable.
\<close>

definition contains_key :: "node \<Rightarrow> key \<Rightarrow> error + bool" where
  "contains_key st k =
     (case st of
        SDict d \<Rightarrow> Inr (k \<in> fst ` set d)
      | SList xs \<Rightarrow> Inr False
      | STuple xs \<Rightarrow> Inr False
      | SLeaf \<Rightarrow> Inl (TypeError ''argument of type StreamingCSLeaf is not iterable''))"

text \<open>A list index as Python reads it: a negative index counts from the end.\<close>

definition list_index :: "'a list \<Rightarrow> int \<Rightarrow> nat option" where
  "list_index xs i =
     (let n = int (length xs); j = (if i < 0 then n + i else i)
      in if 0 \<le> j \<and> j < n then Some (nat j) else None)"

text \<open>\<open>self.state[key]\<close>\<close>

definition state_get :: "node \<Rightarrow> key \<Rightarrow> error + node" where
  "state_get st k =
     (case st of
        SDict d \<Rightarrow> (case map_of d k of None \<Rightarrow> Inl (KeyError ''key'') | Some n \<Rightarrow> Inr n)
      | SList xs \<Rightarrow>
          (case k of
             StrKey s \<Rightarrow> Inl (TypeError ''list indices must be integers'')
           | IntKey i \<Rightarrow>
               (case list_index xs i of
                  None \<Rightarrow> Inl (IndexError ''list index out of range'')
                | Some j \<Rightarrow> Inr (xs ! j)))
      | STuple xs \<Rightarrow>
          (case k of
             StrKey s \<Rightarrow> Inl (TypeError ''tuple indices must be integers'')
           | IntKey i \<Rightarrow>
               (case list_index xs i of
                  None \<Rightarrow> Inl (IndexError ''tuple index out of range'')
                | Some j \<Rightarrow> Inr (xs ! j)))
      | SLeaf \<Rightarrow> Inl (TypeError ''StreamingCSLeaf is not subscriptable''))"

text \<open>\<open>self.state[key] = substate\<close>\<close>

definition state_set :: "node \<Rightarrow> key \<Rightarrow> node \<Rightarrow> error + node" where
  "state_set st k sub =
     (case st of
        SDict d \<Rightarrow> Inr (SDict (AList.update k sub d))
      | SList xs \<Rightarrow>
          (case k of
             StrKey s \<Rightarrow> Inl (TypeError ''list indices must be integers'')
           | IntKey i \<Rightarrow>
               (case list_index xs i of
                  None \<Rightarrow> Inl (IndexError ''list assignment index out of range'')
                | Some j \<Rightarrow> Inr (SList (xs[j := sub]))))
      | STuple xs \<Rightarrow> Inl (TypeError ''tuple does not support item assignment'')
      | SLeaf \<Rightarrow> Inl (TypeError ''StreamingCSLeaf does not support item assignment''))"

text \<open>
  \<open>".".join(self.prefix + [key] + scope)\<close>: \<open>str.join\<close> raises \<open>TypeError\<close> on an item
  that is not a string.
\<close>

fun join_dots :: "string list \<Rightarrow> string" where
  "join_dots [] = []"
| "join_dots [s] = s"
| "join_dots (s # t # ss) = s @ ''.'' @ join_dots (t # ss)"

fun key_strings :: "key list \<Rightarrow> string list option" where
  "key_strings [] = Some []"
| "key_strings (StrKey s # ks) = map_option ((#) s) (key_strings ks)"
| "key_strings (IntKey i # ks) = None"

definition join_name :: "key list \<Rightarrow> error + string" where
  "join_name ks =
     (case key_strings ks of
        None \<Rightarrow> Inl (TypeError ''sequence item: expected str instance, int found'')
      | Some ss \<Rightarrow> Inr (join_dots ss))"

text \<open>\<open>isinstance(value, (dict, list, tuple))\<close>\<close>

definition is_structure :: "pyvalue \<Rightarrow> bool" where
  "is_structure v = (case v of Tensor t \<Rightarrow> False | _ \<Rightarrow> True)"

text \<open>
  \<open>tree_unflatten([StreamingCSLeaf() ...], spec)\<close>: the value with a leaf marker in the
  place of every tensor.
\<close>

primrec skeleton :: "pyvalue \<Rightarrow> node" where
  "skeleton (Tensor t) = SLeaf"
| "skeleton (VDict kvs) = SDict (map (map_prod id skeleton) kvs)"
| "skeleton (VList vs) = SList (map skeleton vs)"
| "skeleton (VTuple vs) = STuple (map skeleton vs)"

text \<open>
  Modelled from the spec: \<open>recurse_spec\<close> is imported from \<open>cerebras_pytorch.utils.nest\<close>,
  which is not among the sources. With \<open>tree_flatten\<close> it gives, for every tensor of a
  structured value in order, its scope: the keys and indices that lead to it, as
  strings (the spec's "derived dotted names").
\<close>

definition key_str :: "key \<Rightarrow> string" where
  "key_str k = (case k of StrKey s \<Rightarrow> s
     | IntKey i \<Rightarrow> (if i < 0 then ''-'' @ decimal (nat (- i)) else decimal (nat i)))"

primrec scoped_leaves :: "pyvalue \<Rightarrow> (string list \<times> nat) list"
  and scoped_items :: "(key \<times> pyvalue) list \<Rightarrow> (string list \<times> nat) list"
  and scoped_item :: "key \<times> pyvalue \<Rightarrow> (string list \<times> nat) list"
  and scoped_elems :: "pyvalue list \<Rightarrow> nat \<Rightarrow> (string list \<times> nat) list" where
  "scoped_leaves (Tensor t) = [([], t)]"
| "scoped_leaves (VDict kvs) = scoped_items kvs"
| "scoped_leaves (VList vs) = scoped_elems vs 0"
| "scoped_leaves (VTuple vs) = scoped_elems vs 0"
| "scoped_items [] = []"
| "scoped_items (kv # kvs) = scoped_item kv @ scoped_items kvs"
| "scoped_item (k, v) = map (\<lambda>p. (key_str k # fst p, snd p)) (scoped_leaves v)"
| "scoped_elems [] i = []"
| "scoped_elems (v # vs) i =
     map (\<lambda>p. (decimal i # fst p, snd p)) (scoped_leaves v) @ scoped_elems vs (Suc i)"

text \<open>The loop over the flattened value: one \<open>save_tensor\<close> for each tensor, under its name.\<close>

fun save_leaves :: "h5file \<Rightarrow> key list \<Rightarrow> (string list \<times> nat) list \<Rightarrow> error + h5file" where
  "save_leaves file pre [] = Inr file"
| "save_leaves file pre ((scope, t) # rest) =
     (case join_name (pre @ map StrKey scope) of
        Inl e \<Rightarrow> Inl e
      | Inr name \<Rightarrow> save_leaves (file(name \<mapsto> t)) pre rest)"

text \<open>
  The two messages. Each is one string literal continued on the next source line, so it
  holds the indentation of that line: 22 and 21 spaces between the two parts.
\<close>

definition msg_structural_key :: string where
  "msg_structural_key =
     ''StreamingCSWriter does not support updating an existing'' @ replicate 22 CHR '' '' @
     ''key which had a dict/list/tuple value''"

definition msg_structural_value :: string where
  "msg_structural_value =
     ''StreamingCSWriter does not support updating a key which'' @ replicate 21 CHR '' '' @
     ''already exists with a dict/list/tuple''"

text \<open>
  \<open>StreamingCSWriterView.__setitem__\<close>. The first test reads \<open>self.state[key]\<close> only
  when \<open>key in self.state\<close>. Then a dict, list or tuple value is flattened, saved leaf by
  leaf and its skeleton stored; any other value is saved under the name of the key and
  a leaf marker stored.
\<close>

definition view_setitem :: "h5file \<Rightarrow> view \<Rightarrow> key \<Rightarrow> pyvalue \<Rightarrow> error + (h5file \<times> view)" where
  "view_setitem file v k val =
     (case contains_key (state v) k of
        Inl e \<Rightarrow> Inl e
      | Inr present \<Rightarrow>
          (case (if present then state_get (state v) k else Inr SLeaf) of
             Inl e \<Rightarrow> Inl e
           | Inr cur \<Rightarrow>
               if present \<and> cur \<noteq> SLeaf then Inl (ValueError msg_structural_key)
               else
                 (case val of
                    Tensor t \<Rightarrow>
                      (case join_name (prefix v @ [k]) of
                         Inl e \<Rightarrow> Inl e
                       | Inr name \<Rightarrow>
                           (case state_set (state v) k SLeaf of
                              Inl e \<Rightarrow> Inl e
                            | Inr st \<Rightarrow> Inr (file(name \<mapsto> t), v\<lparr>state := st\<rparr>)))
                  | _ \<Rightarrow>
                      if present then Inl (ValueError msg_structural_value)
                      else
                        (case save_leaves file (prefix v @ [k]) (scoped_leaves val) of
                           Inl e \<Rightarrow> Inl e
                         | Inr file' \<Rightarrow>
                             (case state_set (state v) k (skeleton val) of
                                Inl e \<Rightarrow> Inl e
                              | Inr st \<Rightarrow> Inr (file', v\<lparr>state := st\<rparr>))))))"

text \<open>
  \<open>StreamingCSWriterView.__getitem__\<close>: a saved tensor for a leaf, a view of the
  substate (with the longer prefix) for a dict, list or tuple.
\<close>

datatype item = Loaded nat | SubView view

definition view_getitem :: "h5file \<Rightarrow> view \<Rightarrow> key \<Rightarrow> error + item" where
  "view_getitem file v k =
     (case state_get (state v) k of
        Inl e \<Rightarrow> Inl e
      | Inr SLeaf \<Rightarrow>
          (case join_name (prefix v @ [k]) of
             Inl e \<Rightarrow> Inl e
           | Inr name \<Rightarrow>
               (case file name of None \<Rightarrow> Inl (KeyError name) | Some t \<Rightarrow> Inr (Loaded t)))
      | Inr sub \<Rightarrow> Inr (SubView \<lparr>state = sub, prefix = prefix v @ [k]\<rparr>))"

text \<open>\<open>StreamingCSWriter.__init__\<close>: the view of an empty dict, with no prefix.\<close>

definition new_cs_writer :: view where
  "new_cs_writer = \<lparr>state = SDict [], prefix = []\<rparr>"

section \<open>Configs and state dicts of the converters\<close>

text \<open>
  A config is a dict from names to values: \<open>None\<close>, booleans, integers, other numbers
  (floats, as rationals), strings and nested dicts. \<open>truthy\<close> is the value of a config
  entry as the condition of an \<open>if\<close>.
\<close>

datatype cval = CNone | CBool bool | CInt int | CNum rat | CStr string | CDict "(string \<times> cval) list"

type_synonym config = "(string, cval) dict"


text \<open>\<open>d[key]\<close> on a config, and on a value that has to be a dict.\<close>

definition cfg_get :: "config \<Rightarrow> string \<Rightarrow> error + cval" where
  "cfg_get d k = (case map_of d k of None \<Rightarrow> Inl (KeyError k) | Some c \<Rightarrow> Inr c)"

definition sub_get :: "cval \<Rightarrow> string \<Rightarrow> error + cval" where
  "sub_get c k =
     (case c of
        CDict d \<Rightarrow> cfg_get d k
      | _ \<Rightarrow> Inl (TypeError ''object is not subscriptable''))"

text \<open>
  What a converter writes into a state dict: a tensor it was given (of any type
  \<open>'t\<close>), or a tensor it creates, \<open>torch.zeros(shape)\<close> or
  \<open>torch.zeros(shape).normal_(mean, std)\<close>. A random tensor is known by the
  parameters of its distribution.
\<close>

datatype 't weights = Given 't | Zeros "nat list" | Normal "nat list" rat rat


text \<open>
  A size passed to \<open>torch.zeros\<close> has to be a non-negative integer: torch raises
  \<open>TypeError\<close> on any other value, a bool included, and \<open>RuntimeError\<close> on a negative
  integer.
\<close>

definition as_size :: "cval \<Rightarrow> error + nat" where
  "as_size c =
     (case c of
        CInt i \<Rightarrow> (if 0 \<le> i then Inr (nat i) else Inl (RuntimeError ''negative dimension''))
      | _ \<Rightarrow> Inl (TypeError ''argument size must be tuple of ints''))"

section \<open>llama.py and falcon\_40b.py: post\_model\_convert\<close>






section \<open>llama.py: ConfigConverter\_LLaMa\_HF\_CS20.convert\_gqa\<close>

text \<open>
  Python's \<open>==\<close>, \<open>%\<close> and \<open>in\<close> on config values. Numbers compare by value across
  \<open>bool\<close>, \<open>int\<close> and \<open>float\<close>; \<open>%\<close> is the floored modulo and raises on a zero divisor;
  \<open>in\<close> asks a dict for a key and a string for a substring.
\<close>

definition num_val :: "cval \<Rightarrow> rat option" where
  "num_val c =
     (case c of
        CBool b \<Rightarrow> Some (if b then 1 else 0)
      | CInt i \<Rightarrow> Some (of_int i)
      | CNum r \<Rightarrow> Some r
      | _ \<Rightarrow> None)"

definition int_val :: "cval \<Rightarrow> int option" where
  "int_val c =
     (case c of
        CBool b \<Rightarrow> Some (if b then 1 else 0)
      | CInt i \<Rightarrow> Some i
      | _ \<Rightarrow> None)"

definition py_eq :: "cval \<Rightarrow> cval \<Rightarrow> bool" where
  "py_eq a b =
     (case (num_val a, num_val b) of
        (Some x, Some y) \<Rightarrow> x = y
      | _ \<Rightarrow> a = b)"

definition py_mod :: "cval \<Rightarrow> cval \<Rightarrow> error + cval" where
  "py_mod a b =
     (case (int_val a, int_val b) of
        (Some x, Some y) \<Rightarrow> (if y = 0 then Inl ZeroDivisionError else Inr (CInt (x mod y)))
      | _ \<Rightarrow>
         (case (num_val a, num_val b) of
            (Some x, Some y) \<Rightarrow>
              (if y = 0 then Inl ZeroDivisionError
               else Inr (CNum (x - y * of_int \<lfloor>x / y\<rfloor>)))
          | _ \<Rightarrow> Inl (TypeError ''unsupported operand type(s) for %'')))"

fun is_substring :: "string \<Rightarrow> string \<Rightarrow> bool" where
  "is_substring p [] = (p = [])"
| "is_substring p (c # cs) = (take (length p) (c # cs) = p \<or> is_substring p cs)"

definition py_in :: "string \<Rightarrow> cval \<Rightarrow> error + bool" where
  "py_in k c =
     (case c of
        CDict d \<Rightarrow> Inr (k \<in> fst ` set d)
      | CStr s \<Rightarrow> Inr (is_substring k s)
      | _ \<Rightarrow> Inl (TypeError ''argument is not iterable''))"

text \<open>
  \<open>str\<close> of an integer, and of the values an error message prints (a float or a dict
  is abbreviated).
\<close>

definition show_int :: "int \<Rightarrow> string" where
  "show_int i = (if i < 0 then ''-'' @ decimal (nat (- i)) else decimal (nat i))"

definition show_cval :: "cval \<Rightarrow> string" where
  "show_cval c =
     (case c of
        CNone \<Rightarrow> ''None''
      | CBool b \<Rightarrow> (if b then ''True'' else ''False'')
      | CInt i \<Rightarrow> show_int i
      | CNum r \<Rightarrow> ''<float>''
      | CStr s \<Rightarrow> s
      | CDict d \<Rightarrow> ''<dict>'')"

definition gqa_msg :: "cval \<Rightarrow> cval \<Rightarrow> string" where
  "gqa_msg heads kv =
     ''number of attention heads should be divisible by num_key_value_heads but got '' @
     show_cval heads @ '' and '' @ show_cval kv"

definition unsupported_msg :: "cval \<Rightarrow> string" where
  "unsupported_msg am = '' attention_module '' @ show_cval am @ '' is not supported for llama''"

text \<open>
  \<open>convert_gqa\<close>. The dicts are the config that is converted and the one that is
  built; \<open>from_index\<close> 0 is HF to CS.
\<close>

definition convert_gqa :: "string \<Rightarrow> string \<Rightarrow> config \<Rightarrow> config \<Rightarrow> nat \<Rightarrow> error + config" where
  "convert_gqa old_key new_key old_state_dict new_state_dict from_index =
     (if from_index = 0 then
        (case cfg_get old_state_dict old_key of Inl e \<Rightarrow> Inl e | Inr kv \<Rightarrow>
         (case cfg_get old_state_dict ''num_attention_heads'' of Inl e \<Rightarrow> Inl e | Inr heads \<Rightarrow>
            if py_eq kv heads
            then Inr (AList.update ''attention_module'' (CStr ''aiayn_attention'') new_state_dict)
            else
              (case py_mod heads kv of
                 Inl e \<Rightarrow> Inl e
               | Inr m \<Rightarrow>
                   if \<not> py_eq m (CInt 0) then Inl (AssertionError (gqa_msg heads kv))
                   else Inr (AList.update ''attention_module'' (CStr ''multiquery_attention'')
                          (AList.update new_key (CDict [(''num_kv_groups'', kv)]) new_state_dict)))))
      else if from_index = 1 then
        (let am = (case map_of old_state_dict ''attention_module'' of
                     None \<Rightarrow> CStr ''aiayn_attention'' | Some a \<Rightarrow> a)
         in if py_eq am (CStr ''aiayn_attention'') then
              (case (case map_of old_state_dict old_key of
                       None \<Rightarrow> Inr True
                     | Some c \<Rightarrow> (case py_in ''num_kv_groups'' c of
                                    Inl e \<Rightarrow> Inl e | Inr b \<Rightarrow> Inr (\<not> b))) of
                 Inl e \<Rightarrow> Inl e
               | Inr ok \<Rightarrow>
                   if \<not> ok
                   then Inl (AssertionError ''Conflict between use of multi-query and multi-head attention'')
                   else
                     (case cfg_get old_state_dict old_key of Inl e \<Rightarrow> Inl e | Inr extra \<Rightarrow>
                      (case sub_get extra ''num_heads'' of Inl e \<Rightarrow> Inl e | Inr n \<Rightarrow>
                         Inr (AList.update new_key n new_state_dict))))
            else if py_eq am (CStr ''multiquery_attention'') then
              (case cfg_get old_state_dict ''num_heads'' of Inl e \<Rightarrow> Inl e | Inr num_heads \<Rightarrow>
               (case cfg_get old_state_dict old_key of Inl e \<Rightarrow> Inl e | Inr extra \<Rightarrow>
                (case sub_get extra ''num_kv_groups'' of Inl e \<Rightarrow> Inl e | Inr num_kv_groups \<Rightarrow>
                 (case py_mod num_heads num_kv_groups of
                    Inl e \<Rightarrow> Inl e
                  | Inr m \<Rightarrow>
                      if \<not> py_eq m (CInt 0)
                      then Inl (AssertionError (gqa_msg num_heads num_kv_groups))
                      else Inr (AList.update new_key num_kv_groups new_state_dict)))))
            else Inl (AssertionError (unsupported_msg am)))
      else Inr new_state_dict)"

section \<open>Tensors of the attention converters\<close>

text \<open>
  A tensor is its shape and its elements in row-major order, as a contiguous torch
  tensor is stored. The operations below are the ones the converters use; each returns
  a contiguous tensor.
\<close>

record 'a tensor =
  shape :: "nat list"
  elements :: "'a list"

text \<open>
  \<open>map_blocks n len f xs\<close> cuts \<open>xs\<close> into \<open>n\<close> consecutive blocks of \<open>len\<close> elements,
  applies \<open>f\<close> to each and joins the results: an operation along one dimension acts so
  on the \<open>n\<close> blocks spanned by the dimensions before it.
\<close>

definition block :: "nat \<Rightarrow> nat \<Rightarrow> 'a list \<Rightarrow> 'a list" where
  "block len i xs = take len (drop (i * len) xs)"

definition map_blocks :: "nat \<Rightarrow> nat \<Rightarrow> ('a list \<Rightarrow> 'a list) \<Rightarrow> 'a list \<Rightarrow> 'a list" where
  "map_blocks n len f xs = concat (map (\<lambda>i. f (block len i xs)) [0..<n])"

text \<open>
  \<open>t.reshape(*dims)\<close> and \<open>t.view(*dims)\<close> (the same on a contiguous tensor), as torch
  infers the size: at most one dimension is \<open>-1\<close>; the product of the others has to be
  the number of elements or, with a \<open>-1\<close>, to divide it and not to be zero.
\<close>

definition infer_size :: "int list \<Rightarrow> nat \<Rightarrow> error + nat list" where
  "infer_size dims n =
     (if \<exists>d \<in> set dims. d < - 1 then Inl (RuntimeError ''invalid shape dimension'')
      else if 1 < length (filter (\<lambda>d. d = - 1) dims)
      then Inl (RuntimeError ''only one dimension can be inferred'')
      else
        (let newsize = prod_list (map nat (filter (\<lambda>d. 0 \<le> d) dims));
             infer = (- 1 \<in> set dims)
         in if n = newsize \<or> (infer \<and> 0 < newsize \<and> n mod newsize = 0)
            then (if infer \<and> newsize = 0
                  then Inl (RuntimeError ''cannot reshape tensor of 0 elements: -1 is ambiguous'')
                  else Inr (map (\<lambda>d. if d = - 1 then n div newsize else nat d) dims))
            else Inl (RuntimeError ''shape is invalid for input size'')))"

definition reshape :: "int list \<Rightarrow> 'a tensor \<Rightarrow> error + 'a tensor" where
  "reshape dims t =
     (case infer_size dims (length (elements t)) of
        Inl e \<Rightarrow> Inl e
      | Inr sh \<Rightarrow> Inr (t\<lparr>shape := sh\<rparr>))"

text \<open>
  A slice \<open>start:stop\<close> of dimension \<open>axis\<close> (a full slice of the others), with the
  bounds clipped to the size as Python clips them; \<open>None\<close> is an omitted \<open>stop\<close>.
\<close>

definition slice_dim :: "nat \<Rightarrow> nat \<Rightarrow> nat option \<Rightarrow> 'a tensor \<Rightarrow> 'a tensor" where
  "slice_dim axis start stop t =
     (let sh = shape t;
          d = sh ! axis;
          nblocks = prod_list (take axis sh);
          cell = prod_list (drop (Suc axis) sh);
          lo = min start d;
          hi = max lo (case stop of None \<Rightarrow> d | Some s \<Rightarrow> min s d)
      in \<lparr>shape = sh[axis := hi - lo],
          elements = map_blocks nblocks (d * cell)
                       (\<lambda>b. take ((hi - lo) * cell) (drop (lo * cell) b)) (elements t)\<rparr>)"

text \<open>
  \<open>transpose_block a b len\<close> turns a block of \<open>a\<close> rows of \<open>b\<close> cells of \<open>len\<close>
  elements into \<open>b\<close> rows of \<open>a\<close> cells. \<open>swap_dims axis\<close> exchanges the dimensions
  \<open>axis\<close> and \<open>axis + 1\<close>: it is \<open>permute(0, 2, 1, 3)\<close> and \<open>permute(0, 2, 1)\<close> for
  \<open>axis = 1\<close>, \<open>permute(0, 1, 3, 2, 4)\<close> and \<open>permute(0, 1, 3, 2)\<close> for \<open>axis = 2\<close>,
  followed by the copy that the next \<open>reshape\<close> makes.
\<close>

definition transpose_block :: "nat \<Rightarrow> nat \<Rightarrow> nat \<Rightarrow> 'a list \<Rightarrow> 'a list" where
  "transpose_block a b len xs =
     concat (map (\<lambda>j. concat (map (\<lambda>i. block len (i * b + j) xs) [0..<a])) [0..<b])"

definition swap_dims :: "nat \<Rightarrow> 'a tensor \<Rightarrow> 'a tensor" where
  "swap_dims axis t =
     (let sh = shape t;
          a = sh ! axis;
          b = sh ! Suc axis;
          nblocks = prod_list (take axis sh);
          cell = prod_list (drop (Suc (Suc axis)) sh)
      in \<lparr>shape = sh[axis := b, Suc axis := a],
          elements = map_blocks nblocks (a * b * cell) (transpose_block a b cell) (elements t)\<rparr>)"

text \<open>
  What the two helpers do to the block of one head, \<open>d\<close> rows of \<open>len\<close> elements of
  which the first \<open>r\<close> are rotary: the two halves of the rotary rows are interleaved
  (HF to CS), or the rows at even and at odd positions are separated (CS to HF); the
  other rows stay.
\<close>

definition rotate_rows :: "nat \<Rightarrow> nat \<Rightarrow> 'a list \<Rightarrow> 'a list" where
  "rotate_rows r len b = transpose_block 2 (r div 2) len (take (r * len) b) @ drop (r * len) b"

definition unrotate_rows :: "nat \<Rightarrow> nat \<Rightarrow> 'a list \<Rightarrow> 'a list" where
  "unrotate_rows r len b = transpose_block (r div 2) 2 len (take (r * len) b) @ drop (r * len) b"

text \<open>
  \<open>torch.cat((x, y), axis)\<close>: the shapes have to agree outside \<open>axis\<close>. A longer tuple
  is concatenated from the left.
\<close>

definition cat2 :: "nat \<Rightarrow> 'a tensor \<Rightarrow> 'a tensor \<Rightarrow> error + 'a tensor" where
  "cat2 axis x y =
     (let sx = shape x; sy = shape y in
      if length sx \<noteq> length sy \<or> length sx \<le> axis \<or> sx[axis := 0] \<noteq> sy[axis := 0]
      then Inl (RuntimeError ''Sizes of tensors must match except in the concatenated dimension'')
      else
        (let nblocks = prod_list (take axis sx);
             cell = prod_list (drop (Suc axis) sx);
             a = sx ! axis;
             b = sy ! axis
         in Inr \<lparr>shape = sx[axis := a + b],
                 elements = concat (map (\<lambda>i. block (a * cell) i (elements x) @
                                              block (b * cell) i (elements y)) [0..<nblocks])\<rparr>))"

fun cat :: "nat \<Rightarrow> 'a tensor list \<Rightarrow> error + 'a tensor" where
  "cat axis [] = Inl (RuntimeError ''torch.cat(): expected a non-empty list of Tensors'')"
| "cat axis [x] = Inr x"
| "cat axis (x # y # ts) = (case cat2 axis x y of Inl e \<Rightarrow> Inl e | Inr xy \<Rightarrow> cat axis (xy # ts))"

section \<open>llama.py: Converter\_LlamaAttention\_HF\_CS\<close>

text \<open>
  The values the converter reads from the CS config, \<open>cs_config["model"][name]\<close>, are
  used as Python uses them. A bound of a slice is an integer (a bool counts as 0 or 1) or
  \<open>None\<close>, which is an omitted bound; a negative bound counts from the end, and a bound
  is clipped to the size of the dimension. A dimension given to \<open>view\<close> or \<open>reshape\<close> is
  an integer, and torch raises \<open>TypeError\<close> on anything else, a bool included. \<open>a // b\<close>
  rounds down.
\<close>

definition model_get :: "config \<Rightarrow> string \<Rightarrow> error + cval" where
  "model_get cs_config name =
     (case cfg_get cs_config ''model'' of Inl e \<Rightarrow> Inl e | Inr model \<Rightarrow> sub_get model name)"

definition slice_bound :: "cval \<Rightarrow> error + int option" where
  "slice_bound c =
     (case c of
        CNone \<Rightarrow> Inr None
      | CInt i \<Rightarrow> Inr (Some i)
      | CBool b \<Rightarrow> Inr (Some (if b then 1 else 0))
      | _ \<Rightarrow> Inl (TypeError ''slice indices must be integers or None or have an __index__ method''))"

definition clip_bound :: "nat \<Rightarrow> int \<Rightarrow> nat" where
  "clip_bound d i = (if i < 0 then nat (int d + i) else min (nat i) d)"

definition py_slice :: "nat \<Rightarrow> int option \<Rightarrow> int option \<Rightarrow> 'a tensor \<Rightarrow> 'a tensor" where
  "py_slice axis start stop t =
     (let d = shape t ! axis
      in slice_dim axis (case start of None \<Rightarrow> 0 | Some i \<Rightarrow> clip_bound d i)
           (case stop of None \<Rightarrow> None | Some i \<Rightarrow> Some (clip_bound d i)) t)"

definition dim_arg :: "cval \<Rightarrow> error + int" where
  "dim_arg c =
     (case c of
        CInt i \<Rightarrow> Inr i
      | _ \<Rightarrow> Inl (TypeError ''argument shape must be tuple of ints''))"

definition floordiv :: "int \<Rightarrow> cval \<Rightarrow> error + cval" where
  "floordiv a c =
     (case c of
        CInt i \<Rightarrow> (if i = 0 then Inl ZeroDivisionError else Inr (CInt (a div i)))
      | CBool b \<Rightarrow> (if b then Inr (CInt a) else Inl ZeroDivisionError)
      | CNum x \<Rightarrow> (if x = 0 then Inl ZeroDivisionError else Inr (CNum (of_int \<lfloor>of_int a / x\<rfloor>)))
      | _ \<Rightarrow> Inl (TypeError ''unsupported operand type(s) for //''))"

text \<open>\<open>interleave_helper\<close>, on a tensor of three dimensions (a weight) or of two (a bias).\<close>

definition interleave_helper :: "'a tensor \<Rightarrow> config \<Rightarrow> error + 'a tensor" where
  "interleave_helper t cs_config =
     (case model_get cs_config ''rotary_dim'' of Inl e \<Rightarrow> Inl e | Inr rotary_dim \<Rightarrow>
      if length (shape t) = 3 then
        (case slice_bound rotary_dim of Inl e \<Rightarrow> Inl e | Inr bound \<Rightarrow>
         (let to_rotate = py_slice 1 None bound t;
              to_pass = py_slice 1 bound None t
          in case reshape [int (shape t ! 0), 2, - 1, int (last (shape t))] to_rotate of
               Inl e \<Rightarrow> Inl e
             | Inr r1 \<Rightarrow>
                 (case reshape [int (shape t ! 0), - 1, int (last (shape t))] (swap_dims 1 r1) of
                    Inl e \<Rightarrow> Inl e
                  | Inr r2 \<Rightarrow> cat 1 [r2, to_pass])))
      else if length (shape t) = 2 then
        (case slice_bound rotary_dim of Inl e \<Rightarrow> Inl e | Inr bound \<Rightarrow>
         (let to_rotate = py_slice 1 None bound t;
              to_pass = py_slice 1 bound None t
          in case reshape [int (shape t ! 0), 2, - 1] to_rotate of
               Inl e \<Rightarrow> Inl e
             | Inr r1 \<Rightarrow>
                 (case reshape [int (shape t ! 0), - 1] (swap_dims 1 r1) of
                    Inl e \<Rightarrow> Inl e
                  | Inr r2 \<Rightarrow> cat 1 [r2, to_pass])))
      else Inl (AssertionError ''shape of query, key, value projection tensor has to have shape of length 2 (biases) or 3 (weights) when converting from HF to CS''))"

text \<open>
  \<open>reverse_interleave_helper\<close>, on a tensor of two dimensions (a weight) or of one (a
  bias); \<open>num_heads\<close> is the value the caller read from the config.
\<close>

definition reverse_interleave_helper :: "'a tensor \<Rightarrow> config \<Rightarrow> cval \<Rightarrow> error + 'a tensor" where
  "reverse_interleave_helper t0 cs_config num_heads =
     (case model_get cs_config ''rotary_dim'' of Inl e \<Rightarrow> Inl e | Inr rotary_dim \<Rightarrow>
      if length (shape t0) = 2 then
        (case dim_arg num_heads of Inl e \<Rightarrow> Inl e | Inr heads \<Rightarrow>
         (case reshape [heads, - 1, int (last (shape t0))] t0 of Inl e \<Rightarrow> Inl e | Inr t \<Rightarrow>
          (case slice_bound rotary_dim of Inl e \<Rightarrow> Inl e | Inr bound \<Rightarrow>
           (let to_rotate = py_slice 1 None bound t;
                to_pass = py_slice 1 bound None t
            in case reshape [heads, - 1, 2, int (last (shape t))] to_rotate of
                 Inl e \<Rightarrow> Inl e
               | Inr r1 \<Rightarrow>
                   (case dim_arg rotary_dim of Inl e \<Rightarrow> Inl e | Inr rotary \<Rightarrow>
                    (case reshape [heads, rotary, int (last (shape t))] (swap_dims 1 r1) of
                       Inl e \<Rightarrow> Inl e
                     | Inr reversed \<Rightarrow> cat 1 [reversed, to_pass]))))))
      else if length (shape t0) = 1 then
        (case dim_arg num_heads of Inl e \<Rightarrow> Inl e | Inr heads \<Rightarrow>
         (case reshape [heads, - 1] t0 of Inl e \<Rightarrow> Inl e | Inr t \<Rightarrow>
          (case slice_bound rotary_dim of Inl e \<Rightarrow> Inl e | Inr bound \<Rightarrow>
           (let to_rotate = py_slice 1 None bound t;
                to_pass = py_slice 1 bound None t
            in case reshape [heads, - 1, 2] to_rotate of
                 Inl e \<Rightarrow> Inl e
               | Inr r1 \<Rightarrow>
                   (case reshape [heads, - 1] (swap_dims 1 r1) of
                      Inl e \<Rightarrow> Inl e
                    | Inr reversed \<Rightarrow> cat 1 [reversed, to_pass])))))
      else Inl (AssertionError ''shape of query, key, value projection tensor has to have shape of length 1 (biases) or 2 (weights) when converting from CS to HF''))"

text \<open>
  What \<open>convert_with_interleaving_query\<close> does with the tensor once it has read the
  number of heads, and \<open>convert_with_interleaving_key\<close>, in its branch of grouped
  attention, once it has read the number of groups: the two bodies are the same
  statements. \<open>from_index\<close> 0 is HF to CS.
\<close>

definition interleave_tensor :: "'a tensor \<Rightarrow> cval \<Rightarrow> nat \<Rightarrow> config \<Rightarrow> error + 'a tensor" where
  "interleave_tensor tensor num_heads from_index cs_config =
     (let initial_shape = shape tensor in
      case (if from_index = 0 then
              (case (if length initial_shape = 2 then
                       (case floordiv (int (initial_shape ! 0)) num_heads of Inl e \<Rightarrow> Inl e | Inr per_head \<Rightarrow>
                        (case dim_arg num_heads of Inl e \<Rightarrow> Inl e | Inr heads \<Rightarrow>
                         (case dim_arg per_head of Inl e \<Rightarrow> Inl e | Inr rows \<Rightarrow>
                            reshape [heads, rows, int (last initial_shape)] tensor)))
                     else if length initial_shape = 1 then
                       (case floordiv (int (initial_shape ! 0)) num_heads of Inl e \<Rightarrow> Inl e | Inr per_head \<Rightarrow>
                        (case dim_arg num_heads of Inl e \<Rightarrow> Inl e | Inr heads \<Rightarrow>
                         (case dim_arg per_head of Inl e \<Rightarrow> Inl e | Inr rows \<Rightarrow>
                            reshape [heads, rows] tensor)))
                     else Inr tensor) of
                 Inl e \<Rightarrow> Inl e
               | Inr t \<Rightarrow> interleave_helper t cs_config)
            else reverse_interleave_helper tensor cs_config num_heads) of
        Inl e \<Rightarrow> Inl e
      | Inr t \<Rightarrow> reshape (map int initial_shape) t)"

text \<open>
  \<open>convert_with_interleaving_query\<close>: the tensor under \<open>old_key\<close> is read, converted by
  heads and written under \<open>new_key\<close>.
\<close>

definition convert_with_interleaving_query ::
  "string \<Rightarrow> string \<Rightarrow> (string, 'a tensor) dict \<Rightarrow> (string, 'a tensor) dict \<Rightarrow> nat \<Rightarrow> config \<Rightarrow>
   error + (string, 'a tensor) dict" where
  "convert_with_interleaving_query old_key new_key old_state_dict new_state_dict from_index cs_config =
     (case map_of old_state_dict old_key of None \<Rightarrow> Inl (KeyError old_key) | Some tensor \<Rightarrow>
      (case model_get cs_config ''num_heads'' of Inl e \<Rightarrow> Inl e | Inr num_heads \<Rightarrow>
       (case interleave_tensor tensor num_heads from_index cs_config of
          Inl e \<Rightarrow> Inl e
        | Inr t \<Rightarrow> Inr (AList.update new_key t new_state_dict))))"

text \<open>
  \<open>convert_with_interleaving_key\<close>: with \<open>aiayn_attention\<close>, which is also the default
  of \<open>.get\<close>, the key projection is converted as the query projection is; with
  \<open>multiquery_attention\<close> it is converted by groups,
  \<open>cs_config["model"]["extra_attention_params"]["num_kv_groups"]\<close> of them; any other
  attention module fails the assertion.
\<close>

definition convert_with_interleaving_key ::
  "string \<Rightarrow> string \<Rightarrow> (string, 'a tensor) dict \<Rightarrow> (string, 'a tensor) dict \<Rightarrow> nat \<Rightarrow> config \<Rightarrow>
   error + (string, 'a tensor) dict" where
  "convert_with_interleaving_key old_key new_key old_state_dict new_state_dict from_index cs_config =
     (case cfg_get cs_config ''model'' of Inl e \<Rightarrow> Inl e | Inr model \<Rightarrow>
      (case (case model of
               CDict d \<Rightarrow> Inr (case map_of d ''attention_module'' of
                                None \<Rightarrow> CStr ''aiayn_attention'' | Some a \<Rightarrow> a)
             | _ \<Rightarrow> Inl (AttributeError ''object has no attribute get'')) of
         Inl e \<Rightarrow> Inl e
       | Inr attention_module \<Rightarrow>
           if py_eq attention_module (CStr ''aiayn_attention'')
           then convert_with_interleaving_query old_key new_key old_state_dict new_state_dict
                  from_index cs_config
           else if py_eq attention_module (CStr ''multiquery_attention'') then
             (case map_of old_state_dict old_key of None \<Rightarrow> Inl (KeyError old_key) | Some tensor \<Rightarrow>
              (case sub_get model ''extra_attention_params'' of Inl e \<Rightarrow> Inl e | Inr extra \<Rightarrow>
               (case sub_get extra ''num_kv_groups'' of Inl e \<Rightarrow> Inl e | Inr num_group \<Rightarrow>
                (case interleave_tensor tensor num_group from_index cs_config of
                   Inl e \<Rightarrow> Inl e
                 | Inr t \<Rightarrow> Inr (AList.update new_key t new_state_dict)))))
           else Inl (AssertionError (unsupported_msg attention_module))))"

definition example_grouped_config :: "nat \<Rightarrow> nat \<Rightarrow> nat \<Rightarrow> config" where
  "example_grouped_config heads groups rotary =
     [(''model'', CDict [(''num_heads'', CInt (int heads)), (''rotary_dim'', CInt (int rotary)),
        (''attention_module'', CStr ''multiquery_attention''),
        (''extra_attention_params'', CDict [(''num_kv_groups'', CInt (int groups))])])]"

section \<open>falcon\_40b.py: Converter\_Falcon\_40B\_Attention\_HF\_CS20\<close>

text \<open>
  The sizes the Falcon converter reads from the CS config, \<open>cs_config["model"][name]\<close>
  and, one dict deeper, \<open>cs_config["model"][sect][name]\<close>: numbers of heads, of groups
  and of hidden dimensions. A value that is not a non-negative integer is an error of
  the read here; Python goes on with it until an operation refuses it.
\<close>

definition model_size :: "config \<Rightarrow> string \<Rightarrow> error + nat" where
  "model_size cs_config name =
     (case cfg_get cs_config ''model'' of Inl e \<Rightarrow> Inl e | Inr model \<Rightarrow>
      (case sub_get model name of Inl e \<Rightarrow> Inl e | Inr c \<Rightarrow> as_size c))"

definition model_sub_size :: "config \<Rightarrow> string \<Rightarrow> string \<Rightarrow> error + nat" where
  "model_sub_size cs_config sect name =
     (case cfg_get cs_config ''model'' of Inl e \<Rightarrow> Inl e | Inr model \<Rightarrow>
      (case sub_get model sect of Inl e \<Rightarrow> Inl e | Inr sub \<Rightarrow>
       (case sub_get sub name of Inl e \<Rightarrow> Inl e | Inr c \<Rightarrow> as_size c)))"

definition floor_div :: "nat \<Rightarrow> nat \<Rightarrow> error + nat" where
  "floor_div a b = (if b = 0 then Inl ZeroDivisionError else Inr (a div b))"

text \<open>
  \<open>interleave_helper\<close>, on a tensor of four dimensions (the heads of a weight, in their
  groups) or of three (the heads of a bias).
\<close>

definition falcon_interleave_helper :: "nat \<Rightarrow> 'a tensor \<Rightarrow> error + 'a tensor" where
  "falcon_interleave_helper rotary_dim t =
     (if length (shape t) = 4 then
        (let to_rotate = slice_dim 2 0 (Some rotary_dim) t;
             to_pass = slice_dim 2 rotary_dim None t
         in case reshape [int (shape t ! 0), int (shape t ! 1), 2, - 1, int (last (shape t))] to_rotate of
              Inl e \<Rightarrow> Inl e
            | Inr r1 \<Rightarrow>
                (case reshape [int (shape t ! 0), int (shape t ! 1), - 1, int (last (shape t))]
                        (swap_dims 2 r1) of
                   Inl e \<Rightarrow> Inl e
                 | Inr r2 \<Rightarrow> cat 2 [r2, to_pass]))
      else if length (shape t) = 3 then
        (let to_rotate = slice_dim 2 0 (Some rotary_dim) t;
             to_pass = slice_dim 2 rotary_dim None t
         in case reshape [int (shape t ! 0), int (shape t ! 1), 2, - 1] to_rotate of
              Inl e \<Rightarrow> Inl e
            | Inr r1 \<Rightarrow>
                (case reshape [int (shape t ! 0), int (shape t ! 1), - 1] (swap_dims 2 r1) of
                   Inl e \<Rightarrow> Inl e
                 | Inr r2 \<Rightarrow> cat 2 [r2, to_pass]))
      else Inl (AssertionError ''shape of query, key, value projection tensor has to have shape of length 2 (biases) or 3 (weights) when converting from HF to CS''))"

text \<open>\<open>reverse_interleave_helper\<close>, on a tensor of two dimensions (a weight) or of one (a bias).\<close>

definition falcon_reverse_interleave_helper :: "nat \<Rightarrow> 'a tensor \<Rightarrow> nat \<Rightarrow> nat \<Rightarrow> error + 'a tensor" where
  "falcon_reverse_interleave_helper rotary_dim t0 group_size num_groups =
     (if length (shape t0) = 2 then
        (case reshape [int num_groups, int group_size, - 1, int (last (shape t0))] t0 of
           Inl e \<Rightarrow> Inl e
         | Inr t \<Rightarrow>
           (let to_rotate = slice_dim 2 0 (Some rotary_dim) t;
                to_pass = slice_dim 2 rotary_dim None t
            in case reshape [int num_groups, int group_size, - 1, 2, int (last (shape t))] to_rotate of
                 Inl e \<Rightarrow> Inl e
               | Inr r1 \<Rightarrow>
                   (case reshape [int num_groups, int group_size, int rotary_dim, int (last (shape t))]
                           (swap_dims 2 r1) of
                      Inl e \<Rightarrow> Inl e
                    | Inr reversed \<Rightarrow> cat 2 [reversed, to_pass])))
      else if length (shape t0) = 1 then
        (case reshape [int num_groups, int group_size, - 1] t0 of
           Inl e \<Rightarrow> Inl e
         | Inr t \<Rightarrow>
           (let to_rotate = slice_dim 2 0 (Some rotary_dim) t;
                to_pass = slice_dim 2 rotary_dim None t
            in case reshape [int num_groups, int group_size, - 1, 2] to_rotate of
                 Inl e \<Rightarrow> Inl e
               | Inr r1 \<Rightarrow>
                   (case reshape [int num_groups, int group_size, - 1] (swap_dims 2 r1) of
                      Inl e \<Rightarrow> Inl e
                    | Inr reversed \<Rightarrow> cat 2 [reversed, to_pass])))
      else Inl (AssertionError ''shape of query, key, value projection tensor has to have shape of length 1 (biases) or 2 (weights) when converting from CS to HF''))"

text \<open>
  \<open>re.sub(pat, rep, s)\<close> for a pattern that matches one string only, as
  \<open>\.proj_q_dense_layer\.\<close> does: every occurrence, from the left, is replaced.
\<close>

function replace_all :: "string \<Rightarrow> string \<Rightarrow> string \<Rightarrow> string" where
  "replace_all pat rep [] = []"
| "replace_all pat rep (c # cs) =
     (if pat \<noteq> [] \<and> take (length pat) (c # cs) = pat
      then rep @ replace_all pat rep (drop (length pat) (c # cs))
      else c # replace_all pat rep cs)"
  by pat_completeness auto
termination
  by (relation "measure (\<lambda>(pat, rep, s). length s)") auto

definition proj_key :: "string \<Rightarrow> string \<Rightarrow> string" where
  "proj_key name q_key = replace_all ''.proj_q_dense_layer.'' (''.proj_'' @ name @ ''_dense_layer.'') q_key"

definition endswith :: "string \<Rightarrow> string \<Rightarrow> bool" where
  "endswith s suffix = (length suffix \<le> length s \<and> drop (length s - length suffix) s = suffix)"

text \<open>\<open>str\<close> of a \<open>torch.Size\<close>, and the messages of the converter.\<close>

fun join_commas :: "string list \<Rightarrow> string" where
  "join_commas [] = []"
| "join_commas [s] = s"
| "join_commas (s # t # ss) = s @ '', '' @ join_commas (t # ss)"

definition show_size :: "nat list \<Rightarrow> string" where
  "show_size sh = ''torch.Size(['' @ join_commas (map decimal sh) @ ''])''"

definition invalid_shape_msg :: "nat list \<Rightarrow> string \<Rightarrow> string" where
  "invalid_shape_msg sh old_key = ''Invalid tensor shape '' @ show_size sh @ '' at '' @ old_key @ ''.''"

definition invalid_key_msg :: "string \<Rightarrow> string" where
  "invalid_key_msg new_key = ''Invalid key after conversion: '' @ new_key"

definition expected_key_msg :: "string \<Rightarrow> string" where
  "expected_key_msg k = ''Expected the following key to exist! '' @ k"

text \<open>
  The sizes both directions read from the CS config, in the order of the source:
  \<open>(head_size, num_kv_groups, kv_group_size)\<close>.
\<close>

definition qkv_sizes :: "config \<Rightarrow> error + nat \<times> nat \<times> nat" where
  "qkv_sizes cs_config =
     (case model_size cs_config ''hidden_size'' of Inl e \<Rightarrow> Inl e | Inr hidden_size \<Rightarrow>
      (case model_size cs_config ''num_heads'' of Inl e \<Rightarrow> Inl e | Inr num_heads \<Rightarrow>
       (case floor_div hidden_size num_heads of Inl e \<Rightarrow> Inl e | Inr head_size \<Rightarrow>
        (case model_sub_size cs_config ''extra_attention_params'' ''num_kv_groups'' of
           Inl e \<Rightarrow> Inl e
         | Inr num_kv_groups \<Rightarrow>
           (case floor_div num_heads num_kv_groups of Inl e \<Rightarrow> Inl e | Inr kv_group_size \<Rightarrow>
              Inr (head_size, num_kv_groups, kv_group_size))))))"

text \<open>
  \<open>qkv_converter_hf_to_cs\<close>: the packed tensor under \<open>old_key\<close> is split into the
  query, key and value tensors, written under \<open>new_key\<close> and the two keys derived from
  it. The three assignments are the last statements of each branch: when the function
  raises, \<open>new_state_dict\<close> is as it was.
\<close>

definition qkv_converter_hf_to_cs ::
  "string \<Rightarrow> string \<Rightarrow> (string, 'a tensor) dict \<Rightarrow> (string, 'a tensor) dict \<Rightarrow> config \<Rightarrow>
   error + (string, 'a tensor) dict" where
  "qkv_converter_hf_to_cs old_key new_key old_state_dict new_state_dict cs_config =
     (let q_key = new_key;
          k_key = proj_key ''k'' q_key;
          v_key = proj_key ''v'' q_key
      in case qkv_sizes cs_config of Inl e \<Rightarrow> Inl e | Inr (head_size, num_kv_groups, kv_group_size) \<Rightarrow>
        (case model_size cs_config ''num_heads'' of Inl e \<Rightarrow> Inl e | Inr num_heads \<Rightarrow>
         if endswith new_key ''.bias'' then
           (case map_of old_state_dict old_key of None \<Rightarrow> Inl (KeyError old_key) | Some packed \<Rightarrow>
            if length (shape packed) \<noteq> 1 then Inl (AssertionError '''')
            else if head_size * (num_kv_groups * 2 + num_heads) \<noteq> shape packed ! 0
            then Inl (AssertionError (invalid_shape_msg (shape packed) old_key))
            else
              (case reshape [int num_kv_groups, int (kv_group_size + 2), - 1] packed of
                 Inl e \<Rightarrow> Inl e
               | Inr split_by_num_heads \<Rightarrow>
                 (let query = slice_dim 1 0 (Some kv_group_size) split_by_num_heads;
                      key = slice_dim 1 kv_group_size (Some (kv_group_size + 1)) split_by_num_heads;
                      val = slice_dim 1 (kv_group_size + 1) (Some (kv_group_size + 2)) split_by_num_heads
                  in case falcon_interleave_helper head_size query of Inl e \<Rightarrow> Inl e | Inr query' \<Rightarrow>
                    (case falcon_interleave_helper head_size key of Inl e \<Rightarrow> Inl e | Inr key' \<Rightarrow>
                     (case reshape [- 1] query' of Inl e \<Rightarrow> Inl e | Inr query'' \<Rightarrow>
                      (case reshape [- 1] val of Inl e \<Rightarrow> Inl e | Inr val' \<Rightarrow>
                       (case reshape [- 1] key' of Inl e \<Rightarrow> Inl e | Inr key'' \<Rightarrow>
                          Inr (AList.update v_key val'
                                (AList.update k_key key''
                                  (AList.update q_key query'' new_state_dict))))))))))
         else if endswith new_key ''.weight'' then
           (case map_of old_state_dict old_key of None \<Rightarrow> Inl (KeyError old_key) | Some packed \<Rightarrow>
            if length (shape packed) < 2
            then Inl (ValueError (''not enough values to unpack (expected 2, got '' @
                       decimal (length (shape packed)) @ '')''))
            else if 2 < length (shape packed)
            then Inl (ValueError ''too many values to unpack (expected 2)'')
            else
              (let packed_dim = shape packed ! 0; dim = shape packed ! 1 in
               if head_size * (num_kv_groups * 2 + num_heads) \<noteq> packed_dim
               then Inl (AssertionError (invalid_shape_msg (shape packed) old_key))
               else
                 (case reshape [int num_kv_groups, int (kv_group_size + 2), - 1, int dim] packed of
                    Inl e \<Rightarrow> Inl e
                  | Inr split_by_num_heads \<Rightarrow>
                    (let query = slice_dim 1 0 (Some kv_group_size) split_by_num_heads;
                         key = slice_dim 1 kv_group_size (Some (kv_group_size + 1)) split_by_num_heads;
                         val = slice_dim 1 (kv_group_size + 1) (Some (kv_group_size + 2)) split_by_num_heads
                     in case falcon_interleave_helper head_size query of Inl e \<Rightarrow> Inl e | Inr query' \<Rightarrow>
                       (case falcon_interleave_helper head_size key of Inl e \<Rightarrow> Inl e | Inr key' \<Rightarrow>
                        (case reshape [- 1, int dim] query' of Inl e \<Rightarrow> Inl e | Inr query'' \<Rightarrow>
                         (case reshape [- 1, int dim] val of Inl e \<Rightarrow> Inl e | Inr val' \<Rightarrow>
                          (case reshape [- 1, int dim] key' of Inl e \<Rightarrow> Inl e | Inr key'' \<Rightarrow>
                             Inr (AList.update v_key val'
                                   (AList.update k_key key''
                                     (AList.update q_key query'' new_state_dict)))))))))))
         else Inl (ValueError (invalid_key_msg new_key))))"

text \<open>
  \<open>qkv_converter_cs_to_hf\<close>: the query, key and value tensors under \<open>old_key\<close> and the
  two keys derived from it are packed into one tensor, written under \<open>new_key\<close>.
\<close>

definition qkv_converter_cs_to_hf ::
  "string \<Rightarrow> string \<Rightarrow> (string, 'a tensor) dict \<Rightarrow> (string, 'a tensor) dict \<Rightarrow> config \<Rightarrow>
   error + (string, 'a tensor) dict" where
  "qkv_converter_cs_to_hf old_key new_key old_state_dict new_state_dict cs_config =
     (let q_key = old_key;
          k_key = proj_key ''k'' q_key;
          v_key = proj_key ''v'' q_key
      in case qkv_sizes cs_config of Inl e \<Rightarrow> Inl e | Inr (head_size, num_kv_groups, kv_group_size) \<Rightarrow>
        if map_of old_state_dict k_key = None then Inl (AssertionError (expected_key_msg k_key))
        else if map_of old_state_dict v_key = None then Inl (AssertionError (expected_key_msg v_key))
        else
          (case map_of old_state_dict q_key of None \<Rightarrow> Inl (KeyError q_key) | Some query \<Rightarrow>
           (case map_of old_state_dict v_key of None \<Rightarrow> Inl (KeyError v_key) | Some val \<Rightarrow>
            (case map_of old_state_dict k_key of None \<Rightarrow> Inl (KeyError k_key) | Some key \<Rightarrow>
             if endswith new_key ''.bias'' then
               (case falcon_reverse_interleave_helper head_size query kv_group_size num_kv_groups of
                  Inl e \<Rightarrow> Inl e
                | Inr query' \<Rightarrow>
                  (case falcon_reverse_interleave_helper head_size key 1 num_kv_groups of
                     Inl e \<Rightarrow> Inl e
                   | Inr key' \<Rightarrow>
                     (case reshape [int num_kv_groups, 1, - 1] val of Inl e \<Rightarrow> Inl e | Inr val' \<Rightarrow>
                      (case cat 1 [query', key', val'] of Inl e \<Rightarrow> Inl e | Inr packed_qkv \<Rightarrow>
                       (case reshape [- 1] packed_qkv of Inl e \<Rightarrow> Inl e | Inr packed_qkv' \<Rightarrow>
                          Inr (AList.update new_key packed_qkv' new_state_dict))))))
             else if endswith new_key ''.weight'' then
               (if shape query = [] then Inl (IndexError ''tuple index out of range'')
                else
                  (let hidden_size = last (shape query) in
                   case falcon_reverse_interleave_helper head_size query kv_group_size num_kv_groups of
                     Inl e \<Rightarrow> Inl e
                   | Inr query' \<Rightarrow>
                     (case falcon_reverse_interleave_helper head_size key 1 num_kv_groups of
                        Inl e \<Rightarrow> Inl e
                      | Inr key' \<Rightarrow>
                        (if shape val = [] then Inl (IndexError ''tuple index out of range'')
                         else
                           (case reshape [int num_kv_groups, 1, - 1, int (last (shape val))] val of
                              Inl e \<Rightarrow> Inl e
                            | Inr val' \<Rightarrow>
                              (case cat 1 [query', key', val'] of Inl e \<Rightarrow> Inl e | Inr packed_qkv \<Rightarrow>
                               (case reshape [- 1, int hidden_size] packed_qkv of
                                  Inl e \<Rightarrow> Inl e
                                | Inr packed_qkv' \<Rightarrow>
                                    Inr (AList.update new_key packed_qkv' new_state_dict))))))))
             else Inl (ValueError (invalid_key_msg new_key))))))"

definition example_falcon_config :: "nat \<Rightarrow> nat \<Rightarrow> nat \<Rightarrow> config" where
  "example_falcon_config hidden heads groups =
     [(''model'', CDict [(''hidden_size'', CInt (int hidden)), (''num_heads'', CInt (int heads)),
        (''extra_attention_params'', CDict [(''num_kv_groups'', CInt (int groups))])])]"

section \<open>Packed query, key and value rows\<close>

text \<open>
  What the two directions do to the elements: a packed tensor is \<open>g\<close> groups of \<open>s\<close>
  query heads, a key head and a value head, of \<open>len\<close> elements each. \<open>unpack_q\<close>,
  \<open>unpack_k\<close> and \<open>unpack_v\<close> take the heads of one kind out of every group;
  \<open>pack_qkv\<close> puts the groups together again.
\<close>

definition unpack_q :: "nat \<Rightarrow> nat \<Rightarrow> nat \<Rightarrow> 'a list \<Rightarrow> 'a list" where
  "unpack_q g s len xs = map_blocks g ((s + 2) * len) (take (s * len)) xs"

definition unpack_k :: "nat \<Rightarrow> nat \<Rightarrow> nat \<Rightarrow> 'a list \<Rightarrow> 'a list" where
  "unpack_k g s len xs = map_blocks g ((s + 2) * len) (\<lambda>b. take len (drop (s * len) b)) xs"

definition unpack_v :: "nat \<Rightarrow> nat \<Rightarrow> nat \<Rightarrow> 'a list \<Rightarrow> 'a list" where
  "unpack_v g s len xs = map_blocks g ((s + 2) * len) (\<lambda>b. take len (drop ((s + 1) * len) b)) xs"

definition pack_qkv :: "nat \<Rightarrow> nat \<Rightarrow> nat \<Rightarrow> 'a list \<Rightarrow> 'a list \<Rightarrow> 'a list \<Rightarrow> 'a list" where
  "pack_qkv g s len qs ks vs =
     concat (map (\<lambda>i. block (s * len) i qs @ block len i ks @ block len i vs) [0..<g])"

section \<open>Size strings: results\<close>

lemma convert_file_size_to_int_int: "convert_file_size_to_int units (SizeInt n) = Inr n"
  by (simp add: convert_file_size_to_int_def)

lemma re_search_no_digit:
  "re_search_digits_rest s = None \<longleftrightarrow> (\<forall>c \<in> set s. \<not> is_digit c)"
proof (cases "dropWhile (\<lambda>c. \<not> is_digit c) s")
  case Nil
  have "re_search_digits_rest s = None"
    unfolding re_search_digits_rest_def Nil by simp
  moreover have "\<forall>c \<in> set s. \<not> is_digit c"
    using Nil by (simp add: dropWhile_eq_Nil_conv)
  ultimately show ?thesis by simp
next
  case (Cons d ds)
  have "re_search_digits_rest s \<noteq> None"
    unfolding re_search_digits_rest_def Cons by simp
  moreover have "\<not> (\<forall>c \<in> set s. \<not> is_digit c)"
    using Cons dropWhile_eq_Nil_conv [of "\<lambda>c. \<not> is_digit c" s] by auto
  ultimately show ?thesis by blast
qed

lemma re_search_digits_unit:
  assumes ds: "ds \<noteq> []" "\<forall>c \<in> set ds. is_digit c"
    and u: "u = [] \<or> \<not> is_digit (hd u)" "CHR 0x0A \<notin> set u"
  shows "re_search_digits_rest (ds @ u) = Some (ds, u)"
proof -
  obtain d ds' where dd: "ds = d # ds'" using ds(1) by (cases ds) auto
  have d: "is_digit d" using ds(2) dd by simp
  have tw: "takeWhile is_digit (ds @ u) = ds"
  proof (cases u)
    case Nil then show ?thesis using ds(2) by simp
  next
    case (Cons a u') then show ?thesis using ds(2) u(1) by (simp add: takeWhile_append2 takeWhile_tail)
  qed
  have dw: "dropWhile is_digit (ds @ u) = u"
  proof (cases u)
    case Nil then show ?thesis using ds(2) by simp
  next
    case (Cons a u') then show ?thesis using ds(2) u(1) by (simp add: dropWhile_append2)
  qed
  have nl: "takeWhile (\<lambda>c. c \<noteq> CHR 0x0A) u = u"
    using u(2) by (simp add: takeWhile_eq_all_conv) metis
  have "dropWhile (\<lambda>c. \<not> is_digit c) (ds @ u) = ds @ u"
    using d dd by simp
  then show ?thesis
    using tw dw nl dd by (simp add: re_search_digits_rest_def)
qed

text \<open>
  The part of the size-string contract the code keeps: a string of digits followed by a
  unit of the table converts to \<open>num * width\<close>, a string with no digit or with an
  unknown unit raises \<open>ValueError\<close>.
\<close>

lemma convert_file_size_to_int_digits_unit:
  assumes "ds \<noteq> []" "\<forall>c \<in> set ds. is_digit c" "u = [] \<or> \<not> is_digit (hd u)"
    "CHR 0x0A \<notin> set u"
  shows "convert_file_size_to_int units (SizeStr (ds @ u)) =
    (case units u of
       None \<Rightarrow> Inl (ValueError (invalid_size_msg (ds @ u)))
     | Some w \<Rightarrow> Inr (int (int_of_digits ds * w)))"
  using re_search_digits_unit [OF assms]
  by (simp add: convert_file_size_to_int_def convert_byte_unit_def split: option.splits)

lemma convert_file_size_to_int_no_digit:
  assumes "\<forall>c \<in> set s. \<not> is_digit c"
  shows "convert_file_size_to_int units (SizeStr s) = Inl (ValueError (invalid_size_msg s))"
  using assms re_search_no_digit [of s]
  by (simp add: convert_file_size_to_int_def)

text \<open>
  C9. Size-string parsing rejects every string that is not digits followed by a unit,
  also one with characters before the digits. The code does not: the unanchored search
  skips the characters before the first digit, so \<open>"abc10GB"\<close> is accepted and gives
  what \<open>"10GB"\<close> gives, ten times the width of \<open>GB\<close>, for every table of units that
  knows \<open>GB\<close>.
\<close>

theorem convert_file_size_to_int_leading_chars:
  "convert_file_size_to_int units (SizeStr ''abc10GB'') =
     (case units ''GB'' of
        None \<Rightarrow> Inl (ValueError (invalid_size_msg ''abc10GB''))
      | Some w \<Rightarrow> Inr (int (10 * w))) \<and>
   convert_file_size_to_int byte_units (SizeStr ''abc10GB'') = Inr 10000000000 \<and>
   convert_file_size_to_int byte_units (SizeStr ''10GB'') = Inr 10000000000"
  by (simp add: convert_file_size_to_int_def re_search_digits_rest_def is_digit_def
      convert_byte_unit_def int_of_digits_def digit_val_def byte_units_def
      split: option.splits)

section \<open>Shard file names\<close>

lemma digit_val_digit_char: "d < 10 \<Longrightarrow> digit_val (digit_char d) = d"
  by (simp add: digit_val_def digit_char_def)

lemma is_digit_digit_char: "d < 10 \<Longrightarrow> is_digit (digit_char d)"
  by (simp add: is_digit_def digit_char_def)

lemma int_of_digits_snoc: "int_of_digits (s @ [c]) = 10 * int_of_digits s + digit_val c"
  by (simp add: int_of_digits_def)

lemma int_of_digits_decimal: "int_of_digits (decimal n) = n"
proof (induction n rule: decimal.induct)
  case (1 n)
  show ?case
  proof (cases "n < 10")
    case True
    then show ?thesis
      by (subst decimal.simps) (simp add: int_of_digits_def digit_val_digit_char)
  next
    case False
    then have "int_of_digits (decimal (n div 10)) = n div 10" using 1 by simp
    then show ?thesis using False
      by (subst decimal.simps) (simp add: int_of_digits_snoc digit_val_digit_char)
  qed
qed

lemma digits_decimal: "\<forall>c \<in> set (decimal n). is_digit c"
proof (induction n rule: decimal.induct)
  case (1 n)
  show ?case
  proof (cases "n < 10")
    case True
    then show ?thesis by (subst decimal.simps) (simp add: is_digit_digit_char)
  next
    case False
    then show ?thesis using 1 by (subst decimal.simps) (simp add: is_digit_digit_char)
  qed
qed

lemma int_of_digits_zeros: "int_of_digits (replicate k (CHR ''0'') @ s) = int_of_digits s"
proof -
  have "foldl (\<lambda>a c. 10 * a + digit_val c) 0 (replicate k (CHR ''0'')) = 0"
    by (induction k) (simp_all add: digit_val_def)
  then show ?thesis by (simp add: int_of_digits_def)
qed

lemma int_of_digits_fmt05d: "int_of_digits (fmt05d n) = n"
  by (simp add: fmt05d_def int_of_digits_zeros int_of_digits_decimal)

lemma digits_fmt05d: "\<forall>c \<in> set (fmt05d n). is_digit c"
  using digits_decimal [of n] by (auto simp: fmt05d_def is_digit_def)

lemma fmt05d_inj: "fmt05d m = fmt05d n \<Longrightarrow> m = n"
  by (metis int_of_digits_fmt05d)

lemma takeWhile_digits_then: 
  assumes "\<forall>c \<in> set a. is_digit c" "\<not> is_digit x"
  shows "takeWhile is_digit (a @ x # r) = a"
  using assms by (simp add: takeWhile_tail)

lemma get_filename_inj:
  assumes "get_filename i t = get_filename j u"
  shows "i = j \<and> t = u"
proof -
  have nd: "\<not> is_digit (CHR ''-'')" by (simp add: is_digit_def)
  from assms have e: "fmt05d (i + 1) @ CHR ''-'' # (''of-'' @ fmt05d t @ ''.bin'')
      = fmt05d (j + 1) @ CHR ''-'' # (''of-'' @ fmt05d u @ ''.bin'')"
    by (simp add: get_filename_def)
  have a: "fmt05d (i + 1) = fmt05d (j + 1)"
    using takeWhile_digits_then [OF digits_fmt05d nd, of "i + 1"]
      takeWhile_digits_then [OF digits_fmt05d nd, of "j + 1"] e by metis
  with e have "fmt05d t = fmt05d u" by simp
  with a show ?thesis using fmt05d_inj by fastforce
qed

section \<open>Tensor sizes\<close>

lemma ceil_div8: "\<lceil>(of_nat m :: rat) / 8\<rceil> = int ((m + 7) div 8)"
proof -
  have "\<lceil>(of_int (int m) :: rat) / of_int 8\<rceil> = - ((- int m) div 8)"
    by (simp only: ceiling_divide_eq_div)
  moreover have "- ((- int m) div 8) = int ((m + 7) div 8)" by (simp add: zdiv_int)
  ultimately show ?thesis by simp
qed

lemma weight_size_eq:
  "weight_size v = int ((numel v * dtype_bits (dtype v) + 7) div 8)"
proof -
  have "of_nat (numel v) * dtype_byte_size (dtype v) = (of_nat (numel v * dtype_bits (dtype v)) :: rat) / 8"
    by (cases "dtype v") (simp_all add: dtype_byte_size_def dtype_bits_def)
  then show ?thesis by (simp only: weight_size_def ceil_div8)
qed

lemma weight_size_nonneg: "0 \<le> weight_size v"
  by (simp add: weight_size_eq)

section \<open>StreamingShardedHFWriter: the invariant is kept\<close>

lemma wf_new_writer: "wf_writer (new_writer m)"
  by (auto simp: wf_writer_def new_writer_def shard_names_def)

lemma flush_fields [simp]:
  "weight_map (flush w) = weight_map w"
  "file_size (flush w) = file_size w"
  "current_file_number (flush w) = current_file_number w"
  "last_file_number (flush w) = last_file_number w"
  "total_shards_finalized (flush w) = total_shards_finalized w"
  "active_file_name (flush w) = active_file_name w"
  "active_file_data (flush w) = active_file_data w"
  "max_shard_size (flush w) = max_shard_size w"
  "index_file (flush w) = index_file w"
  "warnings (flush w) = warnings w"
  "dirty (flush w) = False"
  by (simp_all add: flush_def)

lemma shard_names_flush [simp]: "shard_names (flush w) = shard_names w"
  by (simp add: shard_names_def)

lemma flush_on_disk:
  assumes "wf_writer w" "map_of (weight_map w) k = Some f"
  shows "on_disk (flush w) k f"
proof (cases "f = active_file_name w \<and> dirty w")
  case True
  then have "map_of (active_file_data w) k \<noteq> None" using assms by (simp add: wf_writer_def)
  then show ?thesis using True by (simp add: on_disk_def flush_def)
next
  case False
  then have "on_disk w k f" using assms by (auto simp: wf_writer_def)
  then show ?thesis using False by (auto simp: on_disk_def flush_def)
qed

lemma wf_flush: "wf_writer w \<Longrightarrow> wf_writer (flush w)"
  unfolding wf_writer_def [of "flush w"]
  using flush_on_disk [of w]
  by (simp add: wf_writer_def)

lemma wf_names:
  assumes "wf_writer w" "map_of (weight_map w) k = Some f"
  shows "f \<in> dom (map_of (file_size w))" "f \<in> shard_names w"
proof -
  have "f \<in> ran (map_of (weight_map w))" using assms(2) by (auto simp: ran_def)
  then show "f \<in> dom (map_of (file_size w))" using assms(1) by (auto simp: wf_writer_def)
  then show "f \<in> shard_names w" using assms(1) by (auto simp: wf_writer_def)
qed

lemma switch_shards_ok:
  assumes "wf_writer w" "map_of (weight_map w) k = Some f"
  shows "\<exists>d. files (flush w) f = Some d \<and> map_of d k \<noteq> None \<and>
    switch_shards w f = Inr ((flush w)\<lparr>active_file_name := f, active_file_data := d\<rparr>)"
  using flush_on_disk [OF assms]
  by (auto simp: on_disk_def switch_shards_def Let_def)

lemma wf_switch_shards:
  assumes wf: "wf_writer w" and k: "map_of (weight_map w) k = Some f"
    and d: "files (flush w) f = Some d"
  shows "wf_writer ((flush w)\<lparr>active_file_name := f, active_file_data := d\<rparr>)"
proof -
  let ?w = "(flush w)\<lparr>active_file_name := f, active_file_data := d\<rparr>"
  have wff: "wf_writer (flush w)" using wf by (rule wf_flush)
  have sn: "shard_names ?w = shard_names w" by (simp add: shard_names_def)
  have "f \<in> shard_names w" using wf k by (rule wf_names)
  then have act: "\<exists>j t. f = get_filename j t \<and> t \<le> total_shards_finalized w"
    by (auto simp: shard_names_def)
  have e: "\<forall>k' f'. map_of (weight_map w) k' = Some f' \<longrightarrow>
        (f' = f \<longrightarrow> map_of d k' \<noteq> None) \<and> on_disk ?w k' f'"
  proof (intro allI impI)
    fix k' f' assume a: "map_of (weight_map w) k' = Some f'"
    have od: "on_disk (flush w) k' f'" using wf a by (rule flush_on_disk)
    then have "on_disk ?w k' f'" by (simp add: on_disk_def)
    moreover have "f' = f \<longrightarrow> map_of d k' \<noteq> None" using od d by (auto simp: on_disk_def)
    ultimately show "(f' = f \<longrightarrow> map_of d k' \<noteq> None) \<and> on_disk ?w k' f'" by simp
  qed
  show ?thesis
    unfolding wf_writer_def [of ?w] sn
    using wff act e by (simp add: wf_writer_def)
qed

lemma ran_upd_subset: "ran (m(k \<mapsto> v)) \<subseteq> insert v (ran m)"
  by (auto simp: ran_def)

lemma wf_store:
  assumes wf: "wf_writer w" and sz: "map_of (file_size w) (active_file_name w) = Some sz"
  shows "wf_writer (w\<lparr>active_file_data := AList.update key val (active_file_data w),
      weight_map := AList.update key (active_file_name w) (weight_map w),
      file_size := AList.update (active_file_name w) x (file_size w),
      dirty := True\<rparr>)" (is "wf_writer ?w")
proof -
  have sn: "shard_names ?w = shard_names w" by (simp add: shard_names_def)
  have dom: "dom (map_of (file_size ?w)) = dom (map_of (file_size w))"
    using sz by (auto simp: update_conv')
  have ran: "ran (map_of (weight_map ?w)) \<subseteq> dom (map_of (file_size w))"
  proof -
    have "ran (map_of (weight_map ?w)) \<subseteq> insert (active_file_name w) (ran (map_of (weight_map w)))"
      by (simp add: update_conv' ran_upd_subset)
    moreover have "active_file_name w \<in> dom (map_of (file_size w))" using sz by auto
    ultimately show ?thesis using wf by (auto simp: wf_writer_def)
  qed
  have e: "\<forall>k f. map_of (weight_map ?w) k = Some f \<longrightarrow>
        (f = active_file_name ?w \<longrightarrow> map_of (active_file_data ?w) k \<noteq> None) \<and>
        (f \<noteq> active_file_name ?w \<or> \<not> dirty ?w \<longrightarrow> on_disk ?w k f)"
  proof (intro allI impI)
    fix k f assume a: "map_of (weight_map ?w) k = Some f"
    show "(f = active_file_name ?w \<longrightarrow> map_of (active_file_data ?w) k \<noteq> None) \<and>
        (f \<noteq> active_file_name ?w \<or> \<not> dirty ?w \<longrightarrow> on_disk ?w k f)"
    proof (cases "k = key")
      case True
      then show ?thesis using a by (simp add: update_conv')
    next
      case False
      then have "map_of (weight_map w) k = Some f" using a by (simp add: update_conv')
      then have "(f = active_file_name w \<longrightarrow> map_of (active_file_data w) k \<noteq> None) \<and>
        (f \<noteq> active_file_name w \<longrightarrow> on_disk w k f)"
        using wf by (simp add: wf_writer_def)
      then show ?thesis using False by (simp add: update_conv' on_disk_def)
    qed
  qed
  have rest: "distinct (map fst (weight_map ?w))" "distinct (map fst (file_size ?w))"
    "total_shards_finalized ?w \<le> last_file_number ?w + 1"
    "current_file_number ?w = last_file_number ?w"
    "\<exists>j t. active_file_name ?w = get_filename j t \<and> t \<le> total_shards_finalized ?w"
    using wf by (simp_all add: wf_writer_def distinct_update)
  show ?thesis
    unfolding wf_writer_def [of ?w] sn dom
    using rest ran e wf by (simp add: wf_writer_def)
qed

lemma wf_warn: "wf_writer w \<Longrightarrow> wf_writer (w\<lparr>warnings := ws\<rparr>)"
  by (simp add: wf_writer_def shard_names_def on_disk_def)

lemma wf_new_shard: 
  assumes wf: "wf_writer w"
  shows "wf_writer (new_shard w)"
proof -
  let ?n = "get_filename (last_file_number w + 1) (total_shards_finalized w)"
  let ?w = "new_shard w"
  have f: "weight_map ?w = weight_map w" "file_size ?w = AList.update ?n 0 (file_size w)"
    "active_file_name ?w = ?n" "active_file_data ?w = []" "dirty ?w = False"
    "last_file_number ?w = last_file_number w + 1" "current_file_number ?w = last_file_number w + 1"
    "total_shards_finalized ?w = total_shards_finalized w" "files ?w = files (flush w)"
    by (simp_all add: new_shard_def Let_def)
  have sn: "shard_names ?w = insert ?n (shard_names w)"
    by (auto simp: shard_names_def f atMost_Suc)
  have e: "\<forall>k f. map_of (weight_map w) k = Some f \<longrightarrow> f \<noteq> ?n \<and> on_disk ?w k f"
  proof (intro allI impI)
    fix k f assume a: "map_of (weight_map w) k = Some f"
    have "f \<in> shard_names w" using wf a by (rule wf_names)
    then have "f \<noteq> ?n" by (auto simp: shard_names_def dest: get_filename_inj)
    moreover have "on_disk ?w k f" using flush_on_disk [OF wf a] by (simp add: on_disk_def f)
    ultimately show "f \<noteq> ?n \<and> on_disk ?w k f" by simp
  qed
  show ?thesis
    unfolding wf_writer_def [of ?w] f sn
    using wf e by (auto simp: wf_writer_def distinct_update update_conv')
qed

lemma at_shard_fields [simp]:
  "weight_map (at_shard w f) = weight_map w"
  "file_size (at_shard w f) = file_size w"
  "max_shard_size (at_shard w f) = max_shard_size w"
  "warnings (at_shard w f) = warnings w"
  "index_file (at_shard w f) = index_file w"
  "active_file_name (at_shard w f) = f"
  by (simp_all add: at_shard_def)

lemma to_shard:
  assumes "wf_writer w" "map_of (weight_map w) k = Some f"
  shows "(if active_file_name w \<noteq> f then switch_shards w f else Inr w) = Inr (at_shard w f)"
    and "wf_writer (at_shard w f)"
    and "map_of (active_file_data (at_shard w f)) k \<noteq> None"
proof -
  obtain d where d: "files (flush w) f = Some d" "map_of d k \<noteq> None"
    "switch_shards w f = Inr ((flush w)\<lparr>active_file_name := f, active_file_data := d\<rparr>)"
    using switch_shards_ok [OF assms] by blast
  show "(if active_file_name w \<noteq> f then switch_shards w f else Inr w) = Inr (at_shard w f)"
    using d by (simp add: at_shard_def)
  show "wf_writer (at_shard w f)"
    using wf_switch_shards [OF assms d(1)] assms(1) d(1) by (simp add: at_shard_def)
  show "map_of (active_file_data (at_shard w f)) k \<noteq> None"
    using d assms by (auto simp: at_shard_def wf_writer_def)
qed

lemma hf_getitem_ok:
  assumes "wf_writer w" "map_of (weight_map w) k = Some f"
  shows "\<exists>v. map_of (active_file_data (at_shard w f)) k = Some v \<and>
     hf_getitem w k = Inr (v, at_shard w f)"
proof -
  obtain v where v: "map_of (active_file_data (at_shard w f)) k = Some v"
    using to_shard(3) [OF assms] by auto
  have "(if f \<noteq> active_file_name w then switch_shards w f else Inr w) = Inr (at_shard w f)"
    using to_shard(1) [OF assms] by (auto split: if_splits)
  then show ?thesis using v assms(2) by (simp add: hf_getitem_def)
qed

lemma setitem_update_ok:
  assumes wf: "wf_writer w" and k: "map_of (weight_map w) k = Some f"
  shows "\<exists>old sz. map_of (active_file_data (at_shard w f)) k = Some old \<and>
     map_of (file_size w) f = Some sz \<and>
     setitem_update w k val f = Inr ((at_shard w f)\<lparr>
        warnings := (if sz + (weight_size val - weight_size old) > max_shard_size w
                     then warnings w @ [update_warning k f] else warnings w),
        active_file_data := AList.update k val (active_file_data (at_shard w f)),
        weight_map := AList.update k f (weight_map w),
        file_size := AList.update f (sz + (weight_size val - weight_size old)) (file_size w),
        dirty := True\<rparr>)"
proof -
  obtain old where old: "map_of (active_file_data (at_shard w f)) k = Some old"
    using to_shard(3) [OF assms] by auto
  obtain sz where sz: "map_of (file_size w) f = Some sz"
    using wf_names(1) [OF assms] by auto
  show ?thesis
    using old sz to_shard(1) [OF assms]
    by (simp add: setitem_update_def Let_def)
qed

lemma wf_setitem_update:
  assumes wf: "wf_writer w" and k: "map_of (weight_map w) k = Some f"
    and r: "setitem_update w k val f = Inr w'"
  shows "wf_writer w'"
proof -
  obtain old sz where o: "map_of (file_size w) f = Some sz"
    and s: "setitem_update w k val f = Inr ((at_shard w f)\<lparr>
        warnings := (if sz + (weight_size val - weight_size old) > max_shard_size w
                     then warnings w @ [update_warning k f] else warnings w),
        active_file_data := AList.update k val (active_file_data (at_shard w f)),
        weight_map := AList.update k f (weight_map w),
        file_size := AList.update f (sz + (weight_size val - weight_size old)) (file_size w),
        dirty := True\<rparr>)"
    using setitem_update_ok [OF assms(1,2)] by blast
  let ?a = "(at_shard w f)\<lparr>warnings := (if sz + (weight_size val - weight_size old) > max_shard_size w
                     then warnings w @ [update_warning k f] else warnings w)\<rparr>"
  have "wf_writer ?a" using to_shard(2) [OF wf k] by (rule wf_warn)
  moreover have "map_of (file_size ?a) (active_file_name ?a) = Some sz" using o by simp
  ultimately have "wf_writer (?a\<lparr>active_file_data := AList.update k val (active_file_data ?a),
      weight_map := AList.update k (active_file_name ?a) (weight_map ?a),
      file_size := AList.update (active_file_name ?a) (sz + (weight_size val - weight_size old)) (file_size ?a),
      dirty := True\<rparr>)" by (rule wf_store)
  then show ?thesis using r s by simp
qed

lemma wf_setitem_new:
  assumes wf: "wf_writer w" and r: "setitem_new w k val = Inr w'"
  shows "wf_writer w'"
proof -
  have cur: "current_file_number w = last_file_number w" using wf by (simp add: wf_writer_def)
  obtain sz where sz: "map_of (file_size w) (active_file_name w) = Some sz"
    using r cur by (auto simp: setitem_new_def split: option.splits)
  define w2 where "w2 = (if sz + weight_size val > max_shard_size w then new_shard w else w)"
  have wf2: "wf_writer w2" using wf wf_new_shard by (simp add: w2_def)
  obtain sz' where sz': "map_of (file_size w2) (active_file_name w2) = Some sz'"
    using r cur sz by (auto simp: setitem_new_def Let_def w2_def split: option.splits)
  have "w' = w2\<lparr>active_file_data := AList.update k val (active_file_data w2),
      weight_map := AList.update k (active_file_name w2) (weight_map w2),
      file_size := AList.update (active_file_name w2) (sz' + weight_size val) (file_size w2),
      dirty := True\<rparr>"
    using r cur sz sz' by (auto simp: setitem_new_def Let_def w2_def split: option.splits)
  then show ?thesis using wf_store [OF wf2 sz'] by simp
qed

lemma wf_hf_setitem: "wf_writer w \<Longrightarrow> hf_setitem w k val = Inr w' \<Longrightarrow> wf_writer w'"
  by (auto simp: hf_setitem_def split: option.splits intro: wf_setitem_new wf_setitem_update)

lemma wf_hf_getitem: 
  assumes "wf_writer w" "hf_getitem w k = Inr (v, w')"
  shows "wf_writer w'"
proof -
  obtain f where f: "map_of (weight_map w) k = Some f"
    using assms(2) by (auto simp: hf_getitem_def split: option.splits)
  then show ?thesis using hf_getitem_ok [OF assms(1) f] to_shard(2) [OF assms(1) f] assms(2) by auto
qed

lemma update_fresh: "k \<notin> fst ` set al \<Longrightarrow> AList.update k v al = al @ [(k, v)]"
  by (induction al) auto

lemma foldl_update_fresh:
  "distinct (map fst (acc @ kvs)) \<Longrightarrow>
   foldl (\<lambda>d kv. AList.update (fst kv) (snd kv) d) acc kvs = acc @ kvs"
proof (induction kvs arbitrary: acc)
  case Nil
  then show ?case by simp
next
  case (Cons kv kvs)
  have "fst kv \<notin> fst ` set acc" using Cons.prems by auto
  then have u: "AList.update (fst kv) (snd kv) acc = acc @ [kv]" by (simp add: update_fresh)
  have "distinct (map fst ((acc @ [kv]) @ kvs))" using Cons.prems by simp
  then show ?case using Cons.IH [of "acc @ [kv]"] u by simp
qed

lemma dict_of_items_distinct: "distinct (map fst kvs) \<Longrightarrow> dict_of_items kvs = kvs"
  using foldl_update_fresh [of "[]" kvs] by (simp add: dict_of_items_def)

lemma lookup_all_Inr:
  "lookup_all r fs = Inr fs' \<Longrightarrow> fs' = map (\<lambda>f. the (map_of r f)) fs \<and> set fs \<subseteq> dom (map_of r)"
  by (induction fs arbitrary: fs') (auto split: option.splits sum.splits)

lemma lookup_all_dom:
  "set fs \<subseteq> dom (map_of r) \<Longrightarrow> lookup_all r fs = Inr (map (\<lambda>f. the (map_of r f)) fs)"
  by (induction fs) auto

lemma rename_all_sem:
  assumes "rename_all fs rs = Inr fs'" "distinct (map fst rs)" "distinct (map snd rs)"
    "fst ` set rs \<inter> snd ` set rs = {}"
  shows "(\<forall>(a, b) \<in> set rs. fs' b = fs a) \<and> (\<forall>x. x \<notin> fst ` set rs \<union> snd ` set rs \<longrightarrow> fs' x = fs x)"
  using assms
proof (induction rs arbitrary: fs)
  case Nil
  then show ?case by simp
next
  case (Cons r rs)
  obtain a b where r: "r = (a, b)" by (cases r)
  obtain d where d: "fs a = Some d"
    using Cons.prems(1) r by (auto simp: os_rename_def split: option.splits)
  let ?fs1 = "(fs(a := None))(b \<mapsto> d)"
  have run: "rename_all ?fs1 rs = Inr fs'"
    using Cons.prems(1) r d by (simp add: os_rename_def)
  have side: "distinct (map fst rs)" "distinct (map snd rs)" "fst ` set rs \<inter> snd ` set rs = {}"
    using Cons.prems by auto
  have ih: "(\<forall>(a', b') \<in> set rs. fs' b' = ?fs1 a') \<and>
      (\<forall>x. x \<notin> fst ` set rs \<union> snd ` set rs \<longrightarrow> fs' x = ?fs1 x)"
    using Cons.IH [OF run side] .
  have ab: "a \<noteq> b" using Cons.prems(4) r by auto
  have a_out: "a \<notin> fst ` set rs" using Cons.prems(2) r by auto
  have b_out: "b \<notin> snd ` set rs" "b \<notin> fst ` set rs" using Cons.prems(3,4) r by auto
  have a_out2: "a \<notin> snd ` set rs" using Cons.prems(4) r by auto
  have 1: "fs' b = fs a" using ih b_out d by simp
  have 2: "\<forall>(a', b') \<in> set rs. fs' b' = fs a'"
  proof (clarify)
    fix a' b' assume m: "(a', b') \<in> set rs"
    then have "a' \<noteq> a" "a' \<noteq> b" using a_out b_out by force+
    then show "fs' b' = fs a'" using ih m by auto
  qed
  have 3: "\<forall>x. x \<notin> fst ` set (r # rs) \<union> snd ` set (r # rs) \<longrightarrow> fs' x = fs x"
    using ih r by auto
  show ?case using 1 2 3 r by auto
qed

lemma renames_distinct: "distinct (map fst (renames t n))" "distinct (map snd (renames t n))"
  by (auto simp: renames_def distinct_map comp_def inj_on_def dest: get_filename_inj)

lemma renames_disjoint: "t \<noteq> n \<Longrightarrow> fst ` set (renames t n) \<inter> snd ` set (renames t n) = {}"
  by (auto simp: renames_def dest: get_filename_inj)

lemma renames_lookup:
  "map_of (renames t n) f = Some g \<longleftrightarrow> (\<exists>i < n. f = get_filename i t \<and> g = get_filename i n)"
proof -
  have "map_of (renames t n) f = Some g \<longleftrightarrow> (f, g) \<in> set (renames t n)"
    using renames_distinct(1) by (simp add: map_of_eq_Some_iff)
  then show ?thesis by (auto simp: renames_def)
qed

lemma renames_inj:
  assumes "f \<in> dom (map_of (renames t n))" "g \<in> dom (map_of (renames t n))"
    "the (map_of (renames t n) f) = the (map_of (renames t n) g)"
  shows "f = g"
proof -
  obtain i where i: "f = get_filename i t" "map_of (renames t n) f = Some (get_filename i n)"
    using assms(1) renames_lookup by (metis domD)
  obtain j where j: "g = get_filename j t" "map_of (renames t n) g = Some (get_filename j n)"
    using assms(2) renames_lookup by (metis domD)
  show ?thesis using assms(3) i j by (auto dest: get_filename_inj)
qed

lemma dict_of_items_renames: 
  "dict_of_items (map (\<lambda>i. (get_filename i t, get_filename i n)) [0..<n]) = renames t n"
  using dict_of_items_distinct [OF renames_distinct(1), of t n] by (simp add: renames_def)

lemma hf_save_norename:
  assumes "total_shards_finalized w = last_file_number w + 1"
  shows "hf_save w = Inr ((flush w)\<lparr>index_file :=
     Some (sum_list (dict_values (file_size w)), weight_map w)\<rparr>)"
  using assms by (simp add: hf_save_def Let_def)

lemma zip_map_same: "zip (map f xs) (map g xs) = map (\<lambda>x. (f x, g x)) xs"
  by (induction xs) auto

lemma hf_save_unfold:
  "hf_save w =
    (if total_shards_finalized w \<noteq> Suc (last_file_number w)
     then (case rename_all (files (flush w)) (renames (total_shards_finalized w) (Suc (last_file_number w))) of
         Inl (e, fs) \<Rightarrow> Inl (e, (flush w)\<lparr>files := fs\<rparr>)
       | Inr fs \<Rightarrow>
          (case lookup_all (renames (total_shards_finalized w) (Suc (last_file_number w))) (map snd (weight_map w)) of
             Inl e \<Rightarrow> Inl (e, (flush w)\<lparr>files := fs\<rparr>)
           | Inr nf \<Rightarrow>
              (case lookup_all (renames (total_shards_finalized w) (Suc (last_file_number w))) (map fst (file_size w)) of
                 Inl e \<Rightarrow> Inl (e, (flush w)\<lparr>files := fs, weight_map := dict_of_items (zip (map fst (weight_map w)) nf)\<rparr>)
               | Inr nn \<Rightarrow> Inr ((flush w)\<lparr>files := fs,
                    weight_map := dict_of_items (zip (map fst (weight_map w)) nf),
                    file_size := dict_of_items (zip nn (map snd (file_size w))),
                    total_shards_finalized := Suc (last_file_number w),
                    index_file := Some (sum_list (dict_values (file_size w)),
                       dict_of_items (zip (map fst (weight_map w)) nf))\<rparr>))))
     else Inr ((flush w)\<lparr>index_file := Some (sum_list (dict_values (file_size w)), weight_map w)\<rparr>))"
  by (simp add: hf_save_def Let_def dict_of_items_renames del: upt_Suc split: sum.splits prod.splits)

lemma hf_save_rename_steps:
  assumes ne: "total_shards_finalized w \<noteq> Suc (last_file_number w)"
    and r: "hf_save w = Inr w'"
  shows "\<exists>fs nf nn.
     rename_all (files (flush w)) (renames (total_shards_finalized w) (Suc (last_file_number w))) = Inr fs \<and>
     lookup_all (renames (total_shards_finalized w) (Suc (last_file_number w))) (map snd (weight_map w)) = Inr nf \<and>
     lookup_all (renames (total_shards_finalized w) (Suc (last_file_number w))) (map fst (file_size w)) = Inr nn \<and>
     w' = (flush w)\<lparr>files := fs,
                    weight_map := dict_of_items (zip (map fst (weight_map w)) nf),
                    file_size := dict_of_items (zip nn (map snd (file_size w))),
                    total_shards_finalized := Suc (last_file_number w),
                    index_file := Some (sum_list (dict_values (file_size w)),
                       dict_of_items (zip (map fst (weight_map w)) nf))\<rparr>"
proof -
  let ?R = "renames (total_shards_finalized w) (Suc (last_file_number w))"
  have r': "(case rename_all (files (flush w)) ?R of
         Inl (e, fs) \<Rightarrow> Inl (e, (flush w)\<lparr>files := fs\<rparr>)
       | Inr fs \<Rightarrow>
          (case lookup_all ?R (map snd (weight_map w)) of
             Inl e \<Rightarrow> Inl (e, (flush w)\<lparr>files := fs\<rparr>)
           | Inr nf \<Rightarrow>
              (case lookup_all ?R (map fst (file_size w)) of
                 Inl e \<Rightarrow> Inl (e, (flush w)\<lparr>files := fs, weight_map := dict_of_items (zip (map fst (weight_map w)) nf)\<rparr>)
               | Inr nn \<Rightarrow> Inr ((flush w)\<lparr>files := fs,
                    weight_map := dict_of_items (zip (map fst (weight_map w)) nf),
                    file_size := dict_of_items (zip nn (map snd (file_size w))),
                    total_shards_finalized := Suc (last_file_number w),
                    index_file := Some (sum_list (dict_values (file_size w)),
                       dict_of_items (zip (map fst (weight_map w)) nf))\<rparr>)))) = Inr w'"
    using r by (simp only: hf_save_unfold [of w] if_P [OF ne])
  show ?thesis
  proof (cases "rename_all (files (flush w)) ?R")
    case (Inl a)
    then show ?thesis using r' by (cases a) (simp only: sum.case prod.case sum.distinct)
  next
    case fs: (Inr fs)
    show ?thesis
    proof (cases "lookup_all ?R (map snd (weight_map w))")
      case (Inl a)
      then show ?thesis using r' fs by (simp only: sum.case sum.distinct)
    next
      case nf: (Inr nf)
      show ?thesis
      proof (cases "lookup_all ?R (map fst (file_size w))")
        case (Inl a)
        then show ?thesis using r' fs nf by (simp only: sum.case sum.distinct)
      next
        case nn: (Inr nn)
        have "w' = (flush w)\<lparr>files := fs,
                    weight_map := dict_of_items (zip (map fst (weight_map w)) nf),
                    file_size := dict_of_items (zip nn (map snd (file_size w))),
                    total_shards_finalized := Suc (last_file_number w),
                    index_file := Some (sum_list (dict_values (file_size w)),
                       dict_of_items (zip (map fst (weight_map w)) nf))\<rparr>"
          using r' fs nf nn by (simp only: sum.case sum.inject)
        then show ?thesis using fs nf nn by blast
      qed
    qed
  qed
qed

lemma wf_index: "wf_writer w \<Longrightarrow> wf_writer (w\<lparr>index_file := x\<rparr>)"
  by (simp add: wf_writer_def shard_names_def on_disk_def)

lemma renamed_weight_map:
  assumes "distinct (map fst wm)"
  shows "dict_of_items (zip (map fst wm) (map rn (map snd wm))) = map (\<lambda>kf. (fst kf, rn (snd kf))) wm"
proof -
  have z: "zip (map fst wm) (map rn (map snd wm)) = map (\<lambda>kf. (fst kf, rn (snd kf))) wm"
    by (simp add: zip_map_same)
  have "distinct (map fst (map (\<lambda>kf. (fst kf, rn (snd kf))) wm))"
    using assms by (simp add: comp_def)
  then show ?thesis unfolding z by (rule dict_of_items_distinct)
qed

lemma renamed_file_size:
  assumes "distinct (map fst fz)" "inj_on rn (fst ` set fz)"
  shows "dict_of_items (zip (map rn (map fst fz)) (map snd fz)) = map (\<lambda>fs. (rn (fst fs), snd fs)) fz"
proof -
  have z: "zip (map rn (map fst fz)) (map snd fz) = map (\<lambda>fs. (rn (fst fs), snd fs)) fz"
    by (simp add: zip_map_same)
  have "distinct (map rn (map fst fz))"
    by (rule iffD2 [OF distinct_map]) (use assms in simp)
  then have "distinct (map fst (map (\<lambda>fs. (rn (fst fs), snd fs)) fz))"
    by (simp add: comp_def)
  then show ?thesis unfolding z by (rule dict_of_items_distinct)
qed

lemma map_of_renamed_values:
  "map_of (map (\<lambda>kf. (fst kf, rn (snd kf))) wm) k = map_option rn (map_of wm k)"
  by (induction wm) auto

lemma hf_save_rename:
  assumes wf: "wf_writer w" and ne: "total_shards_finalized w \<noteq> Suc (last_file_number w)"
    and r: "hf_save w = Inr w'"
  shows "\<exists>fs. rename_all (files (flush w)) (renames (total_shards_finalized w) (Suc (last_file_number w))) = Inr fs \<and>
     snd ` set (weight_map w) \<subseteq> dom (map_of (renames (total_shards_finalized w) (Suc (last_file_number w)))) \<and>
     fst ` set (file_size w) \<subseteq> dom (map_of (renames (total_shards_finalized w) (Suc (last_file_number w)))) \<and>
     w' = (flush w)\<lparr>files := fs,
        weight_map := map (\<lambda>kf. (fst kf, the (map_of (renames (total_shards_finalized w) (Suc (last_file_number w))) (snd kf)))) (weight_map w),
        file_size := map (\<lambda>fs. (the (map_of (renames (total_shards_finalized w) (Suc (last_file_number w))) (fst fs)), snd fs)) (file_size w),
        total_shards_finalized := Suc (last_file_number w),
        index_file := Some (sum_list (dict_values (file_size w)),
          map (\<lambda>kf. (fst kf, the (map_of (renames (total_shards_finalized w) (Suc (last_file_number w))) (snd kf)))) (weight_map w))\<rparr>"
proof -
  let ?R = "renames (total_shards_finalized w) (Suc (last_file_number w))"
  let ?rn = "\<lambda>f. the (map_of ?R f)"
  obtain fs nf nn where fs: "rename_all (files (flush w)) ?R = Inr fs"
    and nf: "lookup_all ?R (map snd (weight_map w)) = Inr nf"
    and nn: "lookup_all ?R (map fst (file_size w)) = Inr nn"
    and w': "w' = (flush w)\<lparr>files := fs,
                    weight_map := dict_of_items (zip (map fst (weight_map w)) nf),
                    file_size := dict_of_items (zip nn (map snd (file_size w))),
                    total_shards_finalized := Suc (last_file_number w),
                    index_file := Some (sum_list (dict_values (file_size w)),
                       dict_of_items (zip (map fst (weight_map w)) nf))\<rparr>"
    using hf_save_rename_steps [OF ne r] by blast
  have nf': "nf = map ?rn (map snd (weight_map w))" "snd ` set (weight_map w) \<subseteq> dom (map_of ?R)"
    using lookup_all_Inr [OF nf] by auto
  have nn': "nn = map ?rn (map fst (file_size w))" "fst ` set (file_size w) \<subseteq> dom (map_of ?R)"
    using lookup_all_Inr [OF nn] by auto
  have d: "distinct (map fst (weight_map w))" "distinct (map fst (file_size w))"
    using wf by (simp_all add: wf_writer_def)
  have inj: "inj_on ?rn (fst ` set (file_size w))"
  proof (rule inj_onI)
    fix x y assume "x \<in> fst ` set (file_size w)" "y \<in> fst ` set (file_size w)" "?rn x = ?rn y"
    then have "x \<in> dom (map_of ?R)" "y \<in> dom (map_of ?R)" "?rn x = ?rn y"
      using nn'(2) by auto
    then show "x = y" by (rule renames_inj)
  qed
  have wm: "dict_of_items (zip (map fst (weight_map w)) nf) =
      map (\<lambda>kf. (fst kf, ?rn (snd kf))) (weight_map w)"
    unfolding nf'(1) using d(1) by (rule renamed_weight_map)
  have fz: "dict_of_items (zip nn (map snd (file_size w))) =
      map (\<lambda>fs. (?rn (fst fs), snd fs)) (file_size w)"
    unfolding nn'(1) using d(2) inj by (rule renamed_file_size)
  have w'': "w' = (flush w)\<lparr>files := fs,
        weight_map := map (\<lambda>kf. (fst kf, ?rn (snd kf))) (weight_map w),
        file_size := map (\<lambda>fs. (?rn (fst fs), snd fs)) (file_size w),
        total_shards_finalized := Suc (last_file_number w),
        index_file := Some (sum_list (dict_values (file_size w)),
          map (\<lambda>kf. (fst kf, ?rn (snd kf))) (weight_map w))\<rparr>"
    using w' unfolding wm fz .
  show ?thesis
    by (rule exI [of _ fs]) (intro conjI fs nf'(2) nn'(2) w'')
qed

lemma renames_inj_on:
  assumes "S \<subseteq> dom (map_of (renames t n))"
  shows "inj_on (\<lambda>f. the (map_of (renames t n) f)) S"
proof (rule inj_onI)
  fix x y assume "x \<in> S" "y \<in> S" "the (map_of (renames t n) x) = the (map_of (renames t n) y)"
  then have "x \<in> dom (map_of (renames t n))" "y \<in> dom (map_of (renames t n))"
    "the (map_of (renames t n) x) = the (map_of (renames t n) y)"
    using assms by auto
  then show "x = y" by (rule renames_inj)
qed

lemma renames_target:
  assumes "f \<in> dom (map_of (renames t n))"
  shows "\<exists>i < n. f = get_filename i t \<and> the (map_of (renames t n) f) = get_filename i n \<and>
    (f, get_filename i n) \<in> set (renames t n)"
proof -
  obtain g where g: "map_of (renames t n) f = Some g" using assms by auto
  then obtain i where i: "i < n" "f = get_filename i t" "g = get_filename i n"
    using renames_lookup [of t n f g] by auto
  have "(f, g) \<in> set (renames t n)" using g by (rule map_of_SomeD)
  then show ?thesis using g i by auto
qed

lemma wf_renamed:
  assumes wf: "wf_writer w" and ne: "total_shards_finalized w \<noteq> Suc (last_file_number w)"
    and fs: "rename_all (files (flush w)) (renames (total_shards_finalized w) (Suc (last_file_number w))) = Inr fs"
    and wmd: "snd ` set (weight_map w) \<subseteq> dom (map_of (renames (total_shards_finalized w) (Suc (last_file_number w))))"
    and fzd: "fst ` set (file_size w) \<subseteq> dom (map_of (renames (total_shards_finalized w) (Suc (last_file_number w))))"
  shows "wf_writer ((flush w)\<lparr>files := fs,
        weight_map := map (\<lambda>kf. (fst kf, the (map_of (renames (total_shards_finalized w) (Suc (last_file_number w))) (snd kf)))) (weight_map w),
        file_size := map (\<lambda>fs. (the (map_of (renames (total_shards_finalized w) (Suc (last_file_number w))) (fst fs)), snd fs)) (file_size w),
        total_shards_finalized := Suc (last_file_number w),
        index_file := x\<rparr>)" (is "wf_writer ?w'")
proof -
  let ?t = "total_shards_finalized w"
  let ?n = "Suc (last_file_number w)"
  let ?R = "renames ?t ?n"
  let ?rn = "\<lambda>f. the (map_of ?R f)"
  have lt: "?t < ?n" using wf ne by (simp add: wf_writer_def)
  have sem: "\<forall>(a, b) \<in> set ?R. fs b = files (flush w) a"
    using rename_all_sem [OF fs renames_distinct renames_disjoint [OF ne]] by blast
  have d1: "distinct (map fst (weight_map ?w'))"
    using wf by (simp add: wf_writer_def comp_def)
  have d2: "distinct (map fst (file_size ?w'))"
  proof -
    have "distinct (map ?rn (map fst (file_size w)))"
      by (rule iffD2 [OF distinct_map]) (use wf renames_inj_on [OF fzd] in \<open>simp add: wf_writer_def\<close>)
    then show ?thesis by (simp add: comp_def)
  qed
  have domfz: "dom (map_of (file_size ?w')) = ?rn ` fst ` set (file_size w)"
    by (simp add: dom_map_of_conv_image_fst image_image)
  have mv: "map_of (weight_map ?w') k = map_option ?rn (map_of (weight_map w) k)" for k
    using map_of_renamed_values [of ?rn "weight_map w" k] by simp
  have a: "dom (map_of (file_size ?w')) \<subseteq> shard_names ?w'"
  proof
    fix g assume "g \<in> dom (map_of (file_size ?w'))"
    then obtain f where f: "f \<in> fst ` set (file_size w)" "g = ?rn f" unfolding domfz by blast
    then obtain i where "i < ?n" "?rn f = get_filename i ?n"
      using renames_target [of f ?t ?n] fzd by blast
    then show "g \<in> shard_names ?w'" using f by (auto simp: shard_names_def)
  qed
  have b: "ran (map_of (weight_map ?w')) \<subseteq> dom (map_of (file_size ?w'))"
  proof
    fix g assume "g \<in> ran (map_of (weight_map ?w'))"
    then obtain k where "map_of (weight_map ?w') k = Some g" by (auto simp: ran_def)
    then obtain f where f: "map_of (weight_map w) k = Some f" "g = ?rn f"
      unfolding mv by auto
    then have "f \<in> dom (map_of (file_size w))" using wf_names(1) [OF wf] by blast
    then have "f \<in> fst ` set (file_size w)" by (simp add: dom_map_of_conv_image_fst)
    then show "g \<in> dom (map_of (file_size ?w'))" unfolding domfz using f by blast
  qed
  have act: "\<exists>j t. active_file_name ?w' = get_filename j t \<and> t \<le> total_shards_finalized ?w'"
  proof -
    obtain j t where jt: "active_file_name w = get_filename j t" "t \<le> ?t"
      using wf by (auto simp: wf_writer_def)
    have "active_file_name ?w' = get_filename j t \<and> t \<le> total_shards_finalized ?w'"
      using jt lt by simp
    then show ?thesis by blast
  qed
  have e: "\<forall>k g. map_of (weight_map ?w') k = Some g \<longrightarrow>
        (g = active_file_name ?w' \<longrightarrow> map_of (active_file_data ?w') k \<noteq> None) \<and>
        (g \<noteq> active_file_name ?w' \<or> \<not> dirty ?w' \<longrightarrow> on_disk ?w' k g)"
  proof (intro allI impI)
    fix k g assume "map_of (weight_map ?w') k = Some g"
    then obtain f where f: "map_of (weight_map w) k = Some f" "g = ?rn f"
      unfolding mv by auto
    have "f \<in> snd ` set (weight_map w)" using map_of_SomeD [OF f(1)] by force
    then have fd: "f \<in> dom (map_of ?R)" using wmd by blast
    obtain i where i: "i < ?n" "?rn f = get_filename i ?n" "(f, get_filename i ?n) \<in> set ?R"
      using renames_target [OF fd] by blast
    have "fs g = files (flush w) f" using sem i f(2) by auto
    moreover have "on_disk (flush w) k f" using wf f(1) by (rule flush_on_disk)
    ultimately have od: "on_disk ?w' k g" by (simp add: on_disk_def)
    obtain j t where jt: "active_file_name w = get_filename j t" "t \<le> ?t"
      using wf by (auto simp: wf_writer_def)
    have "g \<noteq> active_file_name ?w'"
    proof
      assume "g = active_file_name ?w'"
      then have "get_filename i ?n = get_filename j t" using f(2) i(2) jt(1) by simp
      then have "?n = t" using get_filename_inj by blast
      then show False using jt(2) lt by simp
    qed
    then show "(g = active_file_name ?w' \<longrightarrow> map_of (active_file_data ?w') k \<noteq> None) \<and>
        (g \<noteq> active_file_name ?w' \<or> \<not> dirty ?w' \<longrightarrow> on_disk ?w' k g)"
      using od by simp
  qed
  have c: "total_shards_finalized ?w' \<le> last_file_number ?w' + 1"
    "current_file_number ?w' = last_file_number ?w'"
    using wf by (simp_all add: wf_writer_def)
  show ?thesis
    unfolding wf_writer_def [of ?w']
    by (intro conjI d1 d2 a b c act e)
qed

lemma weight_size_int8 [simp]: "weight_size (int8_tensor n) = int n"
  by (simp add: weight_size_eq int8_tensor_def dtype_bits_def)

lemma hf_save_post:
  assumes wf: "wf_writer w" and r: "hf_save w = Inr w'"
  shows "wf_writer w'" "\<not> dirty w'" "total_shards_finalized w' = Suc (last_file_number w')"
    "index_file w' = Some (sum_list (dict_values (file_size w)), weight_map w')"
    "sum_list (dict_values (file_size w')) = sum_list (dict_values (file_size w))"
proof -
  have "wf_writer w' \<and> \<not> dirty w' \<and> total_shards_finalized w' = Suc (last_file_number w') \<and>
    index_file w' = Some (sum_list (dict_values (file_size w)), weight_map w') \<and>
    sum_list (dict_values (file_size w')) = sum_list (dict_values (file_size w))"
  proof (cases "total_shards_finalized w = Suc (last_file_number w)")
    case True
    have w': "w' = (flush w)\<lparr>index_file := Some (sum_list (dict_values (file_size w)), weight_map w)\<rparr>"
      using r True by (simp add: hf_save_unfold [of w])
    have "wf_writer w'" unfolding w' using wf by (intro wf_index wf_flush)
    then show ?thesis using True by (simp add: w')
  next
    case False
    obtain fs where fs: "rename_all (files (flush w)) (renames (total_shards_finalized w) (Suc (last_file_number w))) = Inr fs"
      and wmd: "snd ` set (weight_map w) \<subseteq> dom (map_of (renames (total_shards_finalized w) (Suc (last_file_number w))))"
      and fzd: "fst ` set (file_size w) \<subseteq> dom (map_of (renames (total_shards_finalized w) (Suc (last_file_number w))))"
      and w': "w' = (flush w)\<lparr>files := fs,
        weight_map := map (\<lambda>kf. (fst kf, the (map_of (renames (total_shards_finalized w) (Suc (last_file_number w))) (snd kf)))) (weight_map w),
        file_size := map (\<lambda>fs. (the (map_of (renames (total_shards_finalized w) (Suc (last_file_number w))) (fst fs)), snd fs)) (file_size w),
        total_shards_finalized := Suc (last_file_number w),
        index_file := Some (sum_list (dict_values (file_size w)),
          map (\<lambda>kf. (fst kf, the (map_of (renames (total_shards_finalized w) (Suc (last_file_number w))) (snd kf)))) (weight_map w))\<rparr>"
      using hf_save_rename [OF wf False r] by blast
    have "wf_writer w'" unfolding w' using wf False fs wmd fzd by (rule wf_renamed)
    moreover have "sum_list (dict_values (file_size w')) = sum_list (dict_values (file_size w))"
      by (simp add: w' dict_values_def comp_def)
    ultimately show ?thesis by (simp add: w')
  qed
  then show "wf_writer w'" "\<not> dirty w'" "total_shards_finalized w' = Suc (last_file_number w')"
    "index_file w' = Some (sum_list (dict_values (file_size w)), weight_map w')"
    "sum_list (dict_values (file_size w')) = sum_list (dict_values (file_size w))"
    by simp_all
qed

lemma wf_hf_step: "wf_writer w \<Longrightarrow> hf_step w op = Inr w' \<Longrightarrow> wf_writer w'"
proof (cases op)
  case (SetItem k v)
  assume "wf_writer w" "hf_step w op = Inr w'"
  then show ?thesis using SetItem wf_hf_setitem [of w k v w'] by (simp add: hf_step_def)
next
  case (GetItem k)
  assume a: "wf_writer w" "hf_step w op = Inr w'"
  then obtain v where "hf_getitem w k = Inr (v, w')"
    using GetItem by (auto simp: hf_step_def split: sum.splits)
  then show ?thesis using a(1) by (rule wf_hf_getitem [rotated])
next
  case Save
  assume "wf_writer w" "hf_step w op = Inr w'"
  then show ?thesis using Save hf_save_post(1) [of w w'] by (simp add: hf_step_def)
qed

lemma wf_hf_run: "wf_writer w \<Longrightarrow> hf_run w ops = Inr w' \<Longrightarrow> wf_writer w'"
proof (induction ops arbitrary: w)
  case Nil
  then show ?case by simp
next
  case (Cons op ops)
  then obtain w1 where "hf_step w op = Inr w1" "hf_run w1 ops = Inr w'"
    by (auto split: sum.splits)
  then show ?case using Cons.IH [of w1] Cons.prems(1) wf_hf_step by blast
qed

lemma hf_init_new: "hf_init units sz = Inr w0 \<Longrightarrow> \<exists>m. w0 = new_writer m"
  by (auto simp: hf_init_def split: sum.splits)

lemma wf_reachable:
  assumes "hf_init units sz = Inr w0" "hf_run w0 ops = Inr w"
  shows "wf_writer w"
proof -
  obtain m where "w0 = new_writer m" using hf_init_new [OF assms(1)] by blast
  then have "wf_writer w0" by (simp add: wf_new_writer)
  then show ?thesis using assms(2) by (rule wf_hf_run)
qed

lemma get_filename_values:
  "get_filename 0 0 = ''pytorch_model-00001-of-00000.bin''"
  "get_filename (Suc 0) 0 = ''pytorch_model-00002-of-00000.bin''"
  "get_filename 0 (Suc 0) = ''pytorch_model-00001-of-00001.bin''"
  "get_filename 0 (Suc (Suc 0)) = ''pytorch_model-00001-of-00002.bin''"
  "get_filename (Suc 0) (Suc (Suc 0)) = ''pytorch_model-00002-of-00002.bin''"
  by code_simp+

text \<open>
  C10. \<open>save()\<close> on a writer into which no key was inserted raises a file-not-found
  error: nothing is flushed, and the renumbering renames
  \<open>pytorch_model-00001-of-00000.bin\<close>, which was never created. The writer and the
  directory are as they were, with no manifest.
\<close>

theorem save_of_empty_writer_raises:
  "hf_init units (SizeInt m) = Inr (new_writer m) \<and>
   flush (new_writer m) = new_writer m \<and>
   hf_save (new_writer m) =
     Inl (FileNotFoundError ''pytorch_model-00001-of-00000.bin'', new_writer m) \<and>
   files (new_writer m) = Map.empty \<and> index_file (new_writer m) = None"
proof -
  have i: "hf_init units (SizeInt m) = Inr (new_writer m)"
    by (simp add: hf_init_def convert_file_size_to_int_def)
  have f: "flush (new_writer m) = new_writer m"
    by (simp add: flush_def new_writer_def)
  have r: "renames 0 (Suc 0) = [(get_filename 0 0, get_filename 0 (Suc 0))]"
    by (simp add: renames_def)
  have n: "total_shards_finalized (new_writer m) = 0" "last_file_number (new_writer m) = 0"
    "files (new_writer m) = Map.empty" "index_file (new_writer m) = None"
    by (simp_all add: new_writer_def)
  have s: "hf_save (new_writer m) =
     Inl (FileNotFoundError ''pytorch_model-00001-of-00000.bin'', new_writer m)"
    unfolding hf_save_unfold [of "new_writer m"] f n r
    by (simp add: os_rename_def get_filename_values new_writer_def)
  show ?thesis using i f s n by simp
qed

text \<open>
  C4. After \<open>save()\<close> has returned, the manifest is written; every key of its weight map
  maps to a shard file named \<open>pytorch_model-<i+1>-of-<total>.bin\<close> with \<open>i < total\<close>,
  five digits each, that exists in the directory and holds the key; its total size
  is the sum of the tracked \<open>file_size\<close> values, before and after the renumbering; and
  a second \<open>save()\<close> returns and changes nothing. This holds for every writer reached
  from a new one by \<open>__setitem__\<close>, \<open>__getitem__\<close> and \<open>save\<close> calls that returned.
\<close>

theorem save_manifest_consistent:
  assumes "hf_init units sz = Inr w0" and "hf_run w0 ops = Inr w" and "hf_save w = Inr w'"
  shows "index_file w' = Some (sum_list (dict_values (file_size w)), weight_map w') \<and>
    sum_list (dict_values (file_size w')) = sum_list (dict_values (file_size w)) \<and>
    (\<forall>(k, f) \<in> set (weight_map w').
       (\<exists>i < total_shards_finalized w'. f = get_filename i (total_shards_finalized w')) \<and>
       (\<exists>d. files w' f = Some d \<and> map_of d k \<noteq> None)) \<and>
    hf_save w' = Inr w'"
proof -
  have wf: "wf_writer w" using assms(1,2) by (rule wf_reachable)
  note post = hf_save_post [OF wf assms(3)]
  have names: "\<forall>(k, f) \<in> set (weight_map w').
       (\<exists>i < total_shards_finalized w'. f = get_filename i (total_shards_finalized w')) \<and>
       (\<exists>d. files w' f = Some d \<and> map_of d k \<noteq> None)"
  proof (clarify)
    fix k f assume m: "(k, f) \<in> set (weight_map w')"
    have "distinct (map fst (weight_map w'))" using post(1) by (simp add: wf_writer_def)
    then have kf: "map_of (weight_map w') k = Some f" using m by simp
    have "f \<in> shard_names w'" using post(1) kf by (rule wf_names)
    then have 1: "\<exists>i < total_shards_finalized w'. f = get_filename i (total_shards_finalized w')"
      using post(3) by (auto simp: shard_names_def less_Suc_eq_le)
    have "on_disk w' k f" using post(1,2) kf by (simp add: wf_writer_def)
    then show "(\<exists>i < total_shards_finalized w'. f = get_filename i (total_shards_finalized w')) \<and>
       (\<exists>d. files w' f = Some d \<and> map_of d k \<noteq> None)"
      using 1 by (simp add: on_disk_def)
  qed
  have fl: "flush w' = w'" using post(2) by (simp add: flush_def)
  have again: "hf_save w' = Inr w'"
    unfolding hf_save_unfold [of w'] fl using post(3,4,5) by simp
  show ?thesis using post(4,5) names again by simp
qed

theorem save_manifest_consistent_witness:
  "\<exists>w w'. hf_init byte_units (SizeInt 100) = Inr (new_writer 100) \<and>
     hf_run (new_writer 100) [SetItem ''a'' (int8_tensor 60), SetItem ''b'' (int8_tensor 50)] = Inr w \<and>
     hf_save w = Inr w' \<and>
     index_file w' = Some (110, [(''a'', ''pytorch_model-00001-of-00002.bin''),
                                 (''b'', ''pytorch_model-00002-of-00002.bin'')]) \<and>
     weight_map w' = [(''a'', ''pytorch_model-00001-of-00002.bin''),
                      (''b'', ''pytorch_model-00002-of-00002.bin'')] \<and>
     files w' ''pytorch_model-00001-of-00002.bin'' = Some [(''a'', int8_tensor 60)] \<and>
     files w' ''pytorch_model-00002-of-00002.bin'' = Some [(''b'', int8_tensor 50)] \<and>
     sum_list (dict_values (file_size w')) = 110 \<and>
     hf_save w' = Inr w'"
proof -
  have i: "hf_init byte_units (SizeInt 100) = Inr (new_writer 100)"
    by (simp add: hf_init_def convert_file_size_to_int_def)
  define w where "w = (new_writer 100)\<lparr>
      weight_map := [(''a'', get_filename 0 0), (''b'', get_filename (Suc 0) 0)],
      current_file_number := Suc 0, last_file_number := Suc 0,
      active_file_name := get_filename (Suc 0) 0,
      active_file_data := [(''b'', int8_tensor 50)],
      file_size := [(get_filename 0 0, 60), (get_filename (Suc 0) 0, 50)],
      dirty := True,
      files := [get_filename 0 0 \<mapsto> [(''a'', int8_tensor 60)]]\<rparr>"
  have r: "hf_run (new_writer 100) [SetItem ''a'' (int8_tensor 60), SetItem ''b'' (int8_tensor 50)] = Inr w"
    by (simp add: w_def hf_step_def hf_setitem_def setitem_new_def new_shard_def flush_def
        new_writer_def Let_def get_filename_values)
  obtain w' where s: "hf_save w = Inr w'"
    and w': "weight_map w' = [(''a'', ''pytorch_model-00001-of-00002.bin''),
                      (''b'', ''pytorch_model-00002-of-00002.bin'')]"
     "files w' ''pytorch_model-00001-of-00002.bin'' = Some [(''a'', int8_tensor 60)]"
     "files w' ''pytorch_model-00002-of-00002.bin'' = Some [(''b'', int8_tensor 50)]"
     "sum_list (dict_values (file_size w)) = 110"
    by (simp add: hf_save_def w_def flush_def new_writer_def Let_def get_filename_values
        dict_of_items_def dict_values_def os_rename_def upt_rec)
  show ?thesis
    using save_manifest_consistent [OF i r s] i r s w' by auto
qed

text \<open>
  C8. Updating a key that is already in the writer never raises. The writer switches
  to the shard that holds the key when it is not the active one, stores the new value
  there, leaves the key in that shard, and adds the difference of the two tensor sizes
  to the tracked size of the shard; when the new size is above \<open>max_shard_size\<close> it
  logs one warning and goes on. \<open>old\<close> is the value the writer held for the key, as
  \<open>__getitem__\<close> returns it.
\<close>

theorem update_overrun_not_fatal:
  assumes "hf_init units sz = Inr w0" and "hf_run w0 ops = Inr w"
    and "map_of (weight_map w) key = Some f"
  shows "\<exists>old tracked w1 w'.
    hf_getitem w key = Inr (old, w1) \<and>
    map_of (file_size w) f = Some tracked \<and>
    hf_setitem w key val = Inr w' \<and>
    map_of (active_file_data w') key = Some val \<and>
    active_file_name w' = f \<and>
    map_of (weight_map w') key = Some f \<and>
    map_of (file_size w') f = Some (tracked + (weight_size val - weight_size old)) \<and>
    dirty w' \<and>
    warnings w' =
      (if tracked + (weight_size val - weight_size old) > max_shard_size w
       then warnings w @ [update_warning key f] else warnings w)"
proof -
  have wf: "wf_writer w" using assms(1,2) by (rule wf_reachable)
  obtain old where old: "map_of (active_file_data (at_shard w f)) key = Some old"
    and g: "hf_getitem w key = Inr (old, at_shard w f)"
    using hf_getitem_ok [OF wf assms(3)] by blast
  obtain old' tracked where o': "map_of (active_file_data (at_shard w f)) key = Some old'"
    and t: "map_of (file_size w) f = Some tracked"
    and s: "setitem_update w key val f = Inr ((at_shard w f)\<lparr>
        warnings := (if tracked + (weight_size val - weight_size old') > max_shard_size w
                     then warnings w @ [update_warning key f] else warnings w),
        active_file_data := AList.update key val (active_file_data (at_shard w f)),
        weight_map := AList.update key f (weight_map w),
        file_size := AList.update f (tracked + (weight_size val - weight_size old')) (file_size w),
        dirty := True\<rparr>)"
    using setitem_update_ok [OF wf assms(3), of val] by blast
  have oo: "old' = old" using old o' by simp
  let ?w' = "(at_shard w f)\<lparr>
        warnings := (if tracked + (weight_size val - weight_size old) > max_shard_size w
                     then warnings w @ [update_warning key f] else warnings w),
        active_file_data := AList.update key val (active_file_data (at_shard w f)),
        weight_map := AList.update key f (weight_map w),
        file_size := AList.update f (tracked + (weight_size val - weight_size old)) (file_size w),
        dirty := True\<rparr>"
  have set: "hf_setitem w key val = Inr ?w'"
    using s assms(3) by (simp add: hf_setitem_def oo)
  have props: "map_of (active_file_data ?w') key = Some val" "active_file_name ?w' = f"
    "map_of (weight_map ?w') key = Some f"
    "map_of (file_size ?w') f = Some (tracked + (weight_size val - weight_size old))"
    "dirty ?w'"
    "warnings ?w' = (if tracked + (weight_size val - weight_size old) > max_shard_size w
       then warnings w @ [update_warning key f] else warnings w)"
    by (simp_all add: update_conv')
  show ?thesis
    using g t set props by blast
qed

theorem update_overrun_not_fatal_witness:
  "\<exists>w w'. hf_init byte_units (SizeInt 100) = Inr (new_writer 100) \<and>
     hf_run (new_writer 100) [SetItem ''a'' (int8_tensor 60), SetItem ''b'' (int8_tensor 50)] = Inr w \<and>
     map_of (weight_map w) ''a'' = Some ''pytorch_model-00001-of-00000.bin'' \<and>
     active_file_name w = ''pytorch_model-00002-of-00000.bin'' \<and>
     map_of (file_size w) ''pytorch_model-00001-of-00000.bin'' = Some 60 \<and>
     hf_setitem w ''a'' (int8_tensor 120) = Inr w' \<and>
     map_of (active_file_data w') ''a'' = Some (int8_tensor 120) \<and>
     active_file_name w' = ''pytorch_model-00001-of-00000.bin'' \<and>
     map_of (weight_map w') ''a'' = Some ''pytorch_model-00001-of-00000.bin'' \<and>
     map_of (file_size w') ''pytorch_model-00001-of-00000.bin'' = Some 120 \<and>
     warnings w' = [update_warning ''a'' ''pytorch_model-00001-of-00000.bin'']"
proof -
  have i: "hf_init byte_units (SizeInt 100) = Inr (new_writer 100)"
    by (simp add: hf_init_def convert_file_size_to_int_def)
  define w where "w = (new_writer 100)\<lparr>
      weight_map := [(''a'', get_filename 0 0), (''b'', get_filename (Suc 0) 0)],
      current_file_number := Suc 0, last_file_number := Suc 0,
      active_file_name := get_filename (Suc 0) 0,
      active_file_data := [(''b'', int8_tensor 50)],
      file_size := [(get_filename 0 0, 60), (get_filename (Suc 0) 0, 50)],
      dirty := True,
      files := [get_filename 0 0 \<mapsto> [(''a'', int8_tensor 60)]]\<rparr>"
  have r: "hf_run (new_writer 100) [SetItem ''a'' (int8_tensor 60), SetItem ''b'' (int8_tensor 50)] = Inr w"
    by (simp add: w_def hf_step_def hf_setitem_def setitem_new_def new_shard_def flush_def
        new_writer_def Let_def get_filename_values)
  have k: "map_of (weight_map w) ''a'' = Some ''pytorch_model-00001-of-00000.bin''"
    by (simp add: w_def get_filename_values)
  have facts: "active_file_name w = ''pytorch_model-00002-of-00000.bin''"
    "map_of (file_size w) ''pytorch_model-00001-of-00000.bin'' = Some 60"
    "max_shard_size w = 100" "warnings w = []"
    by (simp_all add: w_def get_filename_values new_writer_def)
  have g: "hf_getitem w ''a'' = Inr (int8_tensor 60, at_shard w ''pytorch_model-00001-of-00000.bin'')"
    by (simp add: hf_getitem_def w_def switch_shards_def flush_def at_shard_def Let_def
        get_filename_values new_writer_def)
  obtain old tracked w1 w' where c:
    "hf_getitem w ''a'' = Inr (old, w1)"
    "map_of (file_size w) ''pytorch_model-00001-of-00000.bin'' = Some tracked"
    "hf_setitem w ''a'' (int8_tensor 120) = Inr w'"
    "map_of (active_file_data w') ''a'' = Some (int8_tensor 120)"
    "active_file_name w' = ''pytorch_model-00001-of-00000.bin''"
    "map_of (weight_map w') ''a'' = Some ''pytorch_model-00001-of-00000.bin''"
    "map_of (file_size w') ''pytorch_model-00001-of-00000.bin'' =
       Some (tracked + (weight_size (int8_tensor 120) - weight_size old))"
    "warnings w' =
      (if tracked + (weight_size (int8_tensor 120) - weight_size old) > max_shard_size w
       then warnings w @ [update_warning ''a'' ''pytorch_model-00001-of-00000.bin''] else warnings w)"
    using update_overrun_not_fatal [OF i r k, of "int8_tensor 120"] by blast
  have o: "old = int8_tensor 60" "tracked = 60" using c(1,2) g facts(2) by simp_all
  have "map_of (file_size w') ''pytorch_model-00001-of-00000.bin'' = Some 120"
    "warnings w' = [update_warning ''a'' ''pytorch_model-00001-of-00000.bin'']"
    using c(7,8) o facts by simp_all
  then show ?thesis using i r k facts c by blast
qed

lemma insert_inv_new: "0 \<le> m \<Longrightarrow> insert_inv [] (new_writer m)"
  by (auto simp: insert_inv_def new_writer_def shard_names_def shard_tensors_def)

lemma setitem_new_fit:
  assumes "current_file_number w = last_file_number w"
    "map_of (file_size w) (active_file_name w) = Some sz"
    "\<not> sz + weight_size v > max_shard_size w"
  shows "setitem_new w k v = Inr (w\<lparr>
      active_file_data := AList.update k v (active_file_data w),
      weight_map := AList.update k (active_file_name w) (weight_map w),
      file_size := AList.update (active_file_name w) (sz + weight_size v) (file_size w),
      dirty := True\<rparr>)"
  using assms by (simp add: setitem_new_def Let_def)

lemma setitem_new_tip:
  assumes "current_file_number w = last_file_number w"
    "map_of (file_size w) (active_file_name w) = Some sz"
    "sz + weight_size v > max_shard_size w"
  shows "setitem_new w k v = Inr ((flush w)\<lparr>
      last_file_number := Suc (last_file_number w),
      current_file_number := Suc (last_file_number w),
      active_file_name := get_filename (Suc (last_file_number w)) (total_shards_finalized w),
      active_file_data := [(k, v)],
      weight_map := AList.update k (get_filename (Suc (last_file_number w)) (total_shards_finalized w)) (weight_map w),
      file_size := AList.update (get_filename (Suc (last_file_number w)) (total_shards_finalized w))
         (weight_size v) (file_size w),
      dirty := True\<rparr>)"
  using assms by (simp add: setitem_new_def new_shard_def Let_def update_conv')

lemma shard_tensors_snoc:
  assumes "k \<notin> fst ` set kvs" "weight_map w' = AList.update k g (weight_map w)"
  shows "shard_tensors w' (kvs @ [(k, v)]) f =
    shard_tensors w kvs f @ (if f = g then [(k, v)] else [])"
proof -
  have "filter (\<lambda>kv. map_of (weight_map w') (fst kv) = Some f) kvs =
      filter (\<lambda>kv. map_of (weight_map w) (fst kv) = Some f) kvs"
  proof (rule filter_cong [OF refl])
    fix kv assume "kv \<in> set kvs"
    then have "fst kv \<noteq> k" using assms(1) by auto
    then show "(map_of (weight_map w') (fst kv) = Some f) = (map_of (weight_map w) (fst kv) = Some f)"
      by (simp add: assms(2) update_conv')
  qed
  then show ?thesis by (auto simp: shard_tensors_def assms(2) update_conv')
qed

lemma insert_inv_fit:
  assumes inv: "insert_inv kvs w" and k: "k \<notin> fst ` set kvs"
    and sz: "map_of (file_size w) (active_file_name w) = Some sz"
    and fit: "\<not> sz + weight_size v > max_shard_size w"
  shows "insert_inv (kvs @ [(k, v)]) (w\<lparr>
      active_file_data := AList.update k v (active_file_data w),
      weight_map := AList.update k (active_file_name w) (weight_map w),
      file_size := AList.update (active_file_name w) (sz + weight_size v) (file_size w),
      dirty := True\<rparr>)" (is "insert_inv ?kvs ?w")
proof -
  let ?a = "active_file_name w"
  have sn: "shard_names ?w = shard_names w" by (simp add: shard_names_def)
  have st: "shard_tensors ?w ?kvs f = shard_tensors w kvs f @ (if f = ?a then [(k, v)] else [])" for f
    by (rule shard_tensors_snoc [OF k]) simp
  have a_in: "?a \<in> shard_names w" using inv sz by (auto simp: insert_inv_def)
  have d: "distinct (map fst (file_size ?w))" using inv by (simp add: insert_inv_def distinct_update)
  have dom: "dom (map_of (file_size ?w)) = shard_names ?w"
    using inv sz unfolding sn by (auto simp: insert_inv_def update_conv')
  have wm: "\<forall>k' f. map_of (weight_map ?w) k' = Some f \<longrightarrow> f \<in> shard_names ?w \<and> k' \<in> fst ` set ?kvs"
    unfolding sn using inv a_in by (auto simp: insert_inv_def update_conv')
  have fz: "\<forall>f s. map_of (file_size ?w) f = Some s \<longrightarrow>
        s = sum_list (map (weight_size \<circ> snd) (shard_tensors ?w ?kvs f)) \<and>
        (s \<le> max_shard_size ?w \<or>
         (\<exists>kv. shard_tensors ?w ?kvs f = [kv] \<and> max_shard_size ?w < weight_size (snd kv)))"
  proof (intro allI impI)
    fix f s assume m: "map_of (file_size ?w) f = Some s"
    show "s = sum_list (map (weight_size \<circ> snd) (shard_tensors ?w ?kvs f)) \<and>
        (s \<le> max_shard_size ?w \<or>
         (\<exists>kv. shard_tensors ?w ?kvs f = [kv] \<and> max_shard_size ?w < weight_size (snd kv)))"
    proof (cases "f = ?a")
      case True
      then have s: "s = sz + weight_size v" using m by (simp add: update_conv')
      have "sz = sum_list (map (weight_size \<circ> snd) (shard_tensors w kvs ?a))"
        using inv sz by (simp add: insert_inv_def)
      then show ?thesis unfolding st using True s fit by simp
    next
      case False
      then have "map_of (file_size w) f = Some s" using m by (simp add: update_conv')
      then have "s = sum_list (map (weight_size \<circ> snd) (shard_tensors w kvs f)) \<and>
        (s \<le> max_shard_size w \<or>
         (\<exists>kv. shard_tensors w kvs f = [kv] \<and> max_shard_size w < weight_size (snd kv)))"
        using inv by (simp add: insert_inv_def)
      then show ?thesis unfolding st using False by auto
    qed
  qed
  have rest: "current_file_number ?w = last_file_number ?w"
    "active_file_name ?w = get_filename (last_file_number ?w) (total_shards_finalized ?w)"
    "0 \<le> max_shard_size ?w"
    using inv by (simp_all add: insert_inv_def)
  show ?thesis
    unfolding insert_inv_def [of ?kvs ?w]
    by (intro conjI d dom rest wm fz)
qed

lemma insert_inv_tip:
  assumes inv: "insert_inv kvs w" and k: "k \<notin> fst ` set kvs"
  shows "insert_inv (kvs @ [(k, v)]) ((flush w)\<lparr>
      last_file_number := Suc (last_file_number w),
      current_file_number := Suc (last_file_number w),
      active_file_name := get_filename (Suc (last_file_number w)) (total_shards_finalized w),
      active_file_data := [(k, v)],
      weight_map := AList.update k (get_filename (Suc (last_file_number w)) (total_shards_finalized w)) (weight_map w),
      file_size := AList.update (get_filename (Suc (last_file_number w)) (total_shards_finalized w))
         (weight_size v) (file_size w),
      dirty := True\<rparr>)" (is "insert_inv ?kvs ?w")
proof -
  let ?n = "get_filename (Suc (last_file_number w)) (total_shards_finalized w)"
  have sn: "shard_names ?w = insert ?n (shard_names w)"
    by (auto simp: shard_names_def atMost_Suc)
  have fresh: "?n \<notin> shard_names w"
    by (auto simp: shard_names_def dest: get_filename_inj)
  have st: "shard_tensors ?w ?kvs f = shard_tensors w kvs f @ (if f = ?n then [(k, v)] else [])" for f
    by (rule shard_tensors_snoc [OF k]) simp
  have empty: "shard_tensors w kvs ?n = []"
    using inv fresh by (auto simp: shard_tensors_def insert_inv_def filter_empty_conv)
  have d: "distinct (map fst (file_size ?w))" using inv by (simp add: insert_inv_def distinct_update)
  have dom: "dom (map_of (file_size ?w)) = shard_names ?w"
    using inv unfolding sn by (auto simp: insert_inv_def update_conv')
  have wm: "\<forall>k' f. map_of (weight_map ?w) k' = Some f \<longrightarrow> f \<in> shard_names ?w \<and> k' \<in> fst ` set ?kvs"
    unfolding sn using inv by (auto simp: insert_inv_def update_conv')
  have fz: "\<forall>f s. map_of (file_size ?w) f = Some s \<longrightarrow>
        s = sum_list (map (weight_size \<circ> snd) (shard_tensors ?w ?kvs f)) \<and>
        (s \<le> max_shard_size ?w \<or>
         (\<exists>kv. shard_tensors ?w ?kvs f = [kv] \<and> max_shard_size ?w < weight_size (snd kv)))"
  proof (intro allI impI)
    fix f s assume m: "map_of (file_size ?w) f = Some s"
    show "s = sum_list (map (weight_size \<circ> snd) (shard_tensors ?w ?kvs f)) \<and>
        (s \<le> max_shard_size ?w \<or>
         (\<exists>kv. shard_tensors ?w ?kvs f = [kv] \<and> max_shard_size ?w < weight_size (snd kv)))"
    proof (cases "f = ?n")
      case True
      then have s: "s = weight_size v" using m by (simp add: update_conv')
      have e: "shard_tensors ?w ?kvs f = [(k, v)]" unfolding st using True empty by simp
      show ?thesis unfolding e using s by auto
    next
      case False
      then have "map_of (file_size w) f = Some s" using m by (simp add: update_conv')
      then have "s = sum_list (map (weight_size \<circ> snd) (shard_tensors w kvs f)) \<and>
        (s \<le> max_shard_size w \<or>
         (\<exists>kv. shard_tensors w kvs f = [kv] \<and> max_shard_size w < weight_size (snd kv)))"
        using inv by (simp add: insert_inv_def)
      then show ?thesis unfolding st using False by auto
    qed
  qed
  have rest: "current_file_number ?w = last_file_number ?w"
    "active_file_name ?w = get_filename (last_file_number ?w) (total_shards_finalized ?w)"
    "0 \<le> max_shard_size ?w"
    using inv by (simp_all add: insert_inv_def)
  show ?thesis
    unfolding insert_inv_def [of ?kvs ?w]
    by (intro conjI d dom rest wm fz)
qed

lemma insert_inv_step:
  assumes inv: "insert_inv kvs w" and k: "k \<notin> fst ` set kvs"
  shows "\<exists>w'. hf_setitem w k v = Inr w' \<and> insert_inv (kvs @ [(k, v)]) w' \<and>
    max_shard_size w' = max_shard_size w"
proof -
  have none: "map_of (weight_map w) k = None"
  proof (cases "map_of (weight_map w) k")
    case None then show ?thesis .
  next
    case (Some f)
    then have "k \<in> fst ` set kvs" using inv by (simp add: insert_inv_def)
    then show ?thesis using k by simp
  qed
  have cur: "current_file_number w = last_file_number w" using inv by (simp add: insert_inv_def)
  have dm: "dom (map_of (file_size w)) = shard_names w"
    and act: "active_file_name w = get_filename (last_file_number w) (total_shards_finalized w)"
    using inv by (simp_all add: insert_inv_def)
  have "active_file_name w \<in> shard_names w"
    unfolding act shard_names_def by simp
  then have "active_file_name w \<in> dom (map_of (file_size w))" unfolding dm .
  then obtain sz where sz: "map_of (file_size w) (active_file_name w) = Some sz"
    by blast
  show ?thesis
  proof (cases "sz + weight_size v > max_shard_size w")
    case True
    show ?thesis
      using setitem_new_tip [OF cur sz True, of k] insert_inv_tip [OF inv k, of v] none
      by (simp add: hf_setitem_def)
  next
    case False
    show ?thesis
      using setitem_new_fit [OF cur sz False, of k] insert_inv_fit [OF inv k sz False] none
      by (simp add: hf_setitem_def)
  qed
qed

lemma hf_run_append:
  "hf_run w (ops @ ops') = (case hf_run w ops of Inl e \<Rightarrow> Inl e | Inr w' \<Rightarrow> hf_run w' ops')"
  by (induction ops arbitrary: w) (auto split: sum.splits)

lemma insert_inv_run:
  assumes "insert_inv [] w0" "distinct (map fst kvs)"
  shows "\<exists>w. hf_run w0 (inserts kvs) = Inr w \<and> insert_inv kvs w \<and>
    max_shard_size w = max_shard_size w0"
  using assms(2)
proof (induction kvs rule: rev_induct)
  case Nil
  then show ?case using assms(1) by (simp add: inserts_def)
next
  case (snoc kv kvs)
  obtain w where w: "hf_run w0 (inserts kvs) = Inr w" "insert_inv kvs w"
    "max_shard_size w = max_shard_size w0"
    using snoc by auto
  have k: "fst kv \<notin> fst ` set kvs" using snoc.prems by auto
  obtain w' where w': "hf_setitem w (fst kv) (snd kv) = Inr w'"
    "insert_inv (kvs @ [(fst kv, snd kv)]) w'" "max_shard_size w' = max_shard_size w"
    using insert_inv_step [OF w(2) k] by blast
  have "hf_run w0 (inserts (kvs @ [kv])) = Inr w'"
    using w(1) w'(1) by (simp add: inserts_def hf_run_append hf_step_def)
  then show ?case using w'(2,3) w(3) by simp
qed

lemma inserts_60_50:
  "hf_run (new_writer 100) (inserts [(''a'', int8_tensor 60), (''b'', int8_tensor 50)]) =
     Inr ((new_writer 100)\<lparr>
      weight_map := [(''a'', get_filename 0 0), (''b'', get_filename (Suc 0) 0)],
      current_file_number := Suc 0, last_file_number := Suc 0,
      active_file_name := get_filename (Suc 0) 0,
      active_file_data := [(''b'', int8_tensor 50)],
      file_size := [(get_filename 0 0, 60), (get_filename (Suc 0) 0, 50)],
      dirty := True,
      files := [get_filename 0 0 \<mapsto> [(''a'', int8_tensor 60)]]\<rparr>)"
  by (simp add: inserts_def hf_step_def hf_setitem_def setitem_new_def new_shard_def flush_def
        new_writer_def Let_def get_filename_values)

text \<open>
  C3. A writer with a non-negative limit into which tensors are inserted under pairwise
  distinct keys never raises, and afterwards the tracked size of every shard is the sum
  of the sizes of the inserted tensors that \<open>weight_map\<close> places in it, and is at most
  \<open>max_shard_size\<close> unless the shard holds a single tensor that alone exceeds the
  limit. With a limit of 100 bytes, a tensor of 60 bytes and then one of 50 bytes give
  exactly two shards, of 60 and of 50 bytes.
\<close>

theorem shard_size_invariant:
  assumes "hf_init units sz = Inr w0" and "0 \<le> max_shard_size w0" and "distinct (map fst kvs)"
  shows "(\<exists>w. hf_run w0 (inserts kvs) = Inr w \<and> max_shard_size w = max_shard_size w0 \<and>
      (\<forall>(f, s) \<in> set (file_size w).
         s = sum_list (map (weight_size \<circ> snd) (shard_tensors w kvs f)) \<and>
         (s \<le> max_shard_size w \<or>
          (\<exists>kv. shard_tensors w kvs f = [kv] \<and> max_shard_size w < weight_size (snd kv))))) \<and>
    (\<exists>w. hf_run (new_writer 100) (inserts [(''a'', int8_tensor 60), (''b'', int8_tensor 50)]) = Inr w \<and>
      file_size w = [(''pytorch_model-00001-of-00000.bin'', 60),
                     (''pytorch_model-00002-of-00000.bin'', 50)] \<and>
      weight_map w = [(''a'', ''pytorch_model-00001-of-00000.bin''),
                      (''b'', ''pytorch_model-00002-of-00000.bin'')])"
proof -
  obtain m where m: "w0 = new_writer m" using hf_init_new [OF assms(1)] by blast
  have "0 \<le> m" using assms(2) m by (simp add: new_writer_def)
  then have "insert_inv [] w0" unfolding m by (rule insert_inv_new)
  then obtain w where w: "hf_run w0 (inserts kvs) = Inr w" "insert_inv kvs w"
    "max_shard_size w = max_shard_size w0"
    using insert_inv_run [OF _ assms(3)] by blast
  have "\<forall>(f, s) \<in> set (file_size w).
         s = sum_list (map (weight_size \<circ> snd) (shard_tensors w kvs f)) \<and>
         (s \<le> max_shard_size w \<or>
          (\<exists>kv. shard_tensors w kvs f = [kv] \<and> max_shard_size w < weight_size (snd kv)))"
  proof (clarify)
    fix f s assume "(f, s) \<in> set (file_size w)"
    moreover have "distinct (map fst (file_size w))" using w(2) by (simp add: insert_inv_def)
    ultimately have "map_of (file_size w) f = Some s" by simp
    then show "s = sum_list (map (weight_size \<circ> snd) (shard_tensors w kvs f)) \<and>
         (s \<le> max_shard_size w \<or>
          (\<exists>kv. shard_tensors w kvs f = [kv] \<and> max_shard_size w < weight_size (snd kv)))"
      using w(2) unfolding insert_inv_def by blast
  qed
  then have general: "\<exists>w. hf_run w0 (inserts kvs) = Inr w \<and> max_shard_size w = max_shard_size w0 \<and>
      (\<forall>(f, s) \<in> set (file_size w).
         s = sum_list (map (weight_size \<circ> snd) (shard_tensors w kvs f)) \<and>
         (s \<le> max_shard_size w \<or>
          (\<exists>kv. shard_tensors w kvs f = [kv] \<and> max_shard_size w < weight_size (snd kv))))"
    using w(1,3) by blast
  have concrete: "\<exists>w. hf_run (new_writer 100) (inserts [(''a'', int8_tensor 60), (''b'', int8_tensor 50)]) = Inr w \<and>
      file_size w = [(''pytorch_model-00001-of-00000.bin'', 60),
                     (''pytorch_model-00002-of-00000.bin'', 50)] \<and>
      weight_map w = [(''a'', ''pytorch_model-00001-of-00000.bin''),
                      (''b'', ''pytorch_model-00002-of-00000.bin'')]"
    unfolding inserts_60_50 by (simp add: get_filename_values)
  show ?thesis using general concrete by (rule conjI)
qed

theorem shard_size_invariant_witness:
  "hf_init byte_units (SizeStr ''10B'') = Inr (new_writer 10) \<and>
   0 \<le> max_shard_size (new_writer 10) \<and>
   distinct (map fst [(''a'', int8_tensor 4), (''b'', int8_tensor 60), (''c'', int8_tensor 5)]) \<and>
   (\<exists>w. hf_run (new_writer 10)
           (inserts [(''a'', int8_tensor 4), (''b'', int8_tensor 60), (''c'', int8_tensor 5)]) = Inr w \<and>
      file_size w = [(''pytorch_model-00001-of-00000.bin'', 4),
                     (''pytorch_model-00002-of-00000.bin'', 60),
                     (''pytorch_model-00003-of-00000.bin'', 5)] \<and>
      list_all (\<lambda>(f, s). s = sum_list (map (weight_size \<circ> snd)
            (shard_tensors w [(''a'', int8_tensor 4), (''b'', int8_tensor 60), (''c'', int8_tensor 5)] f)))
        (file_size w))"
proof -
  let ?kvs = "[(''a'', int8_tensor 4), (''b'', int8_tensor 60), (''c'', int8_tensor 5)]"
  have i: "hf_init byte_units (SizeStr ''10B'') = Inr (new_writer 10)"
    by (simp add: hf_init_def convert_file_size_to_int_def re_search_digits_rest_def is_digit_def
        convert_byte_unit_def int_of_digits_def digit_val_def byte_units_def)
  have m: "0 \<le> max_shard_size (new_writer 10)" by (simp add: new_writer_def)
  have d: "distinct (map fst ?kvs)" by simp
  obtain w where w: "hf_run (new_writer 10) (inserts ?kvs) = Inr w"
    and inv: "\<forall>(f, s) \<in> set (file_size w).
         s = sum_list (map (weight_size \<circ> snd) (shard_tensors w ?kvs f)) \<and>
         (s \<le> max_shard_size w \<or>
          (\<exists>kv. shard_tensors w ?kvs f = [kv] \<and> max_shard_size w < weight_size (snd kv)))"
    using shard_size_invariant [OF i m d] by blast
  have third: "get_filename (Suc (Suc 0)) 0 = ''pytorch_model-00003-of-00000.bin''"
    by code_simp
  have fz: "file_size w = [(''pytorch_model-00001-of-00000.bin'', 4),
                     (''pytorch_model-00002-of-00000.bin'', 60),
                     (''pytorch_model-00003-of-00000.bin'', 5)]"
    using w
    by (auto simp: inserts_def hf_step_def hf_setitem_def setitem_new_def new_shard_def flush_def
        new_writer_def Let_def get_filename_values third)
  have "list_all (\<lambda>(f, s). s = sum_list (map (weight_size \<circ> snd) (shard_tensors w ?kvs f)))
        (file_size w)"
    using inv unfolding list_all_iff by blast
  then show ?thesis using i m d w fz by blast
qed

lemma decimal_values: "decimal 0 = ''0''" "decimal (Suc 0) = ''1''"
  by code_simp+

lemma view_setitem_dict_structural_key:
  assumes "state v = SDict d" and "map_of d k = Some cur" and "cur \<noteq> SLeaf"
  shows "view_setitem file v k val = Inl (ValueError msg_structural_key)"
proof -
  have "k \<in> fst ` set d" using assms(2) by (metis domI dom_map_of_conv_image_fst)
  then show ?thesis using assms
    by (simp add: view_setitem_def contains_key_def state_get_def)
qed

lemma view_setitem_dict_structural_value:
  assumes "state v = SDict d" and "map_of d k = Some cur" and "is_structure val"
  shows "\<exists>msg. view_setitem file v k val = Inl (ValueError msg)"
proof -
  have "k \<in> fst ` set d" using assms(2) by (metis domI dom_map_of_conv_image_fst)
  then show ?thesis using assms
    by (cases val) (simp_all add: view_setitem_def contains_key_def state_get_def is_structure_def)
qed

lemma view_setitem_dict_leaf_update:
  assumes "state v = SDict d" and "map_of d k = Some SLeaf"
    and "key_strings (prefix v @ [k]) = Some names"
  shows "view_setitem file v k (Tensor t) =
    Inr (file(join_dots names \<mapsto> t), v\<lparr>state := SDict (AList.update k SLeaf d)\<rparr>)"
proof -
  have "k \<in> fst ` set d" using assms(2) by (metis domI dom_map_of_conv_image_fst)
  then show ?thesis using assms
    by (simp add: view_setitem_def contains_key_def state_get_def state_set_def join_name_def)
qed

text \<open>
  C7. Every view rejects, with a \<open>ValueError\<close>, the assignment to a key that holds a
  dict, list or tuple, and the assignment of a dict, list or tuple to a key that exists.
  The code does so for the keys of a dict-shaped state only. On the view of a list,
  \<open>key in self.state\<close> compares the index with the elements and is always false, so
  neither test fires: in the writer below, \<open>writer["layers"] = [t1, t2]\<close> and then
  \<open>writer["layers"][0] = {}\<close> returns and replaces the leaf at index 0 by a dict; the
  same assignment replaces a list at index 0; and assigning a tensor there raises a
  \<open>TypeError\<close> from \<open>join\<close>, not a \<open>ValueError\<close>.
\<close>

theorem view_setitem_list_view_rebinds:
  "view_setitem Map.empty new_cs_writer (StrKey ''layers'') (VList [Tensor 1, Tensor 2]) =
     Inr ([''layers.0'' \<mapsto> 1, ''layers.1'' \<mapsto> 2],
          \<lparr>state = SDict [(StrKey ''layers'', SList [SLeaf, SLeaf])], prefix = []\<rparr>) \<and>
   view_getitem [''layers.0'' \<mapsto> 1, ''layers.1'' \<mapsto> 2]
       \<lparr>state = SDict [(StrKey ''layers'', SList [SLeaf, SLeaf])], prefix = []\<rparr> (StrKey ''layers'') =
     Inr (SubView \<lparr>state = SList [SLeaf, SLeaf], prefix = [StrKey ''layers'']\<rparr>) \<and>
   state_get (SList [SLeaf, SLeaf]) (IntKey 0) = Inr SLeaf \<and>
   view_setitem file \<lparr>state = SList [SLeaf, SLeaf], prefix = [StrKey ''layers'']\<rparr> (IntKey 0) (VDict []) =
     Inr (file, \<lparr>state = SList [SDict [], SLeaf], prefix = [StrKey ''layers'']\<rparr>) \<and>
   view_setitem file \<lparr>state = SList [SList [SLeaf], SLeaf], prefix = [StrKey ''layers'']\<rparr> (IntKey 0) (VDict []) =
     Inr (file, \<lparr>state = SList [SDict [], SLeaf], prefix = [StrKey ''layers'']\<rparr>) \<and>
   view_setitem file \<lparr>state = SList [SList [SLeaf], SLeaf], prefix = [StrKey ''layers'']\<rparr> (IntKey 0) (Tensor 3) =
     Inl (TypeError ''sequence item: expected str instance, int found'')"
  by (simp add: view_setitem_def view_getitem_def new_cs_writer_def contains_key_def state_set_def
      state_get_def list_index_def join_name_def decimal_values)





lemma convert_gqa_not_divisible:
  assumes "map_of hf_config old_key = Some (CInt kv)"
    and "map_of hf_config ''num_attention_heads'' = Some (CInt heads)"
    and "\<not> kv dvd heads"
  shows "convert_gqa old_key new_key hf_config new_config 0 =
    Inl (if kv = 0 then ZeroDivisionError else AssertionError (gqa_msg (CInt heads) (CInt kv)))"
proof -
  have ne: "kv \<noteq> heads" using assms(3) by auto
  have m: "kv \<noteq> 0 \<Longrightarrow> heads mod kv \<noteq> 0" using assms(3) by (simp add: dvd_eq_mod_eq_0)
  show ?thesis
    using assms(1,2) ne m
    by (simp add: convert_gqa_def cfg_get_def py_eq_def py_mod_def num_val_def int_val_def)
qed

lemma convert_gqa_divisible:
  assumes "map_of hf_config old_key = Some (CInt kv)"
    and "map_of hf_config ''num_attention_heads'' = Some (CInt heads)"
    and "kv dvd heads" and "kv \<noteq> heads"
  shows "convert_gqa old_key new_key hf_config new_config 0 =
    Inr (AList.update ''attention_module'' (CStr ''multiquery_attention'')
          (AList.update new_key (CDict [(''num_kv_groups'', CInt kv)]) new_config))"
proof -
  have "kv \<noteq> 0" using assms(3,4) by auto
  then show ?thesis
    using assms
    by (simp add: convert_gqa_def cfg_get_def py_eq_def py_mod_def num_val_def int_val_def
        mod_eq_0_iff_dvd)
qed



section \<open>Blocks of a list\<close>

lemma length_concat_blocks:
  "(\<And>i. i < n \<Longrightarrow> length (f i) = len) \<Longrightarrow> length (concat (map f [0..<n])) = n * len"
  by (induction n) simp_all

lemma concat_upt_Suc_front:
  "concat (map f [0..<Suc n]) = f 0 @ concat (map (\<lambda>i. f (Suc i)) [0..<n])"
proof -
  have "[0..<Suc n] = 0 # map Suc [0..<n]" by (simp add: upt_conv_Cons map_Suc_upt)
  then show ?thesis by (simp add: comp_def)
qed

lemma block_Suc_drop: "block len (Suc i) xs = block len i (drop len xs)"
  by (simp add: block_def add.commute)

lemma block_Suc_append: "length ys = len \<Longrightarrow> block len (Suc i) (ys @ xs) = block len i xs"
  by (simp add: block_Suc_drop)

lemma block_concat:
  "(\<And>i. i < n \<Longrightarrow> length (f i) = len) \<Longrightarrow> k < n \<Longrightarrow> block len k (concat (map f [0..<n])) = f k"
proof (induction n arbitrary: f k)
  case 0
  then show ?case by simp
next
  case (Suc n)
  have l0: "length (f 0) = len" using Suc.prems(1) by simp
  show ?case
  proof (cases k)
    case 0
    then show ?thesis using l0 by (simp add: concat_upt_Suc_front block_def del: upt_Suc)
  next
    case (Suc k')
    have "block len k' (concat (map (\<lambda>i. f (Suc i)) [0..<n])) = f (Suc k')"
      using Suc.prems Suc by (intro Suc.IH) auto
    then show ?thesis using Suc l0
      by (simp add: concat_upt_Suc_front block_Suc_append del: upt_Suc)
  qed
qed

lemma blocks_id: "length xs = n * len \<Longrightarrow> concat (map (\<lambda>i. block len i xs) [0..<n]) = xs"
proof (induction n arbitrary: xs)
  case 0
  then show ?case by simp
next
  case (Suc n)
  have "concat (map (\<lambda>i. block len i (drop len xs)) [0..<n]) = drop len xs"
    using Suc.prems by (intro Suc.IH) simp
  then show ?case
    by (simp add: concat_upt_Suc_front block_Suc_drop del: upt_Suc) (simp add: block_def)
qed

lemma length_block: "length xs = n * len \<Longrightarrow> i < n \<Longrightarrow> length (block len i xs) = len"
proof -
  assume a: "length xs = n * len" "i < n"
  then have "Suc i * len \<le> n * len" by (intro mult_le_mono1) simp
  then show ?thesis using a by (simp add: block_def)
qed

lemma map_blocks_id: "length xs = n * len \<Longrightarrow> map_blocks n len (\<lambda>b. b) xs = xs"
  by (simp add: map_blocks_def blocks_id)

lemma concat_map_upt_cong:
  assumes "\<And>i. i < n \<Longrightarrow> f i = g i"
  shows "concat (map f [0..<n]) = concat (map g [0..<n])"
proof -
  have "map f [0..<n] = map g [0..<n]"
    by (rule map_cong [OF refl]) (simp add: assms)
  then show ?thesis by (rule arg_cong)
qed

lemma map_blocks_cong:
  "(\<And>i. i < n \<Longrightarrow> f (block len i xs) = g (block len i xs)) \<Longrightarrow>
   map_blocks n len f xs = map_blocks n len g xs"
  unfolding map_blocks_def by (rule concat_map_upt_cong)

lemma length_map_blocks:
  "(\<And>i. i < n \<Longrightarrow> length (f (block len i xs)) = len') \<Longrightarrow>
   length (map_blocks n len f xs) = n * len'"
  unfolding map_blocks_def by (rule length_concat_blocks) simp

lemma block_map_blocks:
  "(\<And>i. i < n \<Longrightarrow> length (f (block len i xs)) = len') \<Longrightarrow> k < n \<Longrightarrow>
   block len' k (map_blocks n len f xs) = f (block len k xs)"
  unfolding map_blocks_def by (rule block_concat) simp_all

lemma map_blocks_comp:
  assumes "\<And>i. i < n \<Longrightarrow> length (f (block len i xs)) = len'"
  shows "map_blocks n len' g (map_blocks n len f xs) = map_blocks n len (\<lambda>b. g (f b)) xs"
proof -
  have "\<And>i. i < n \<Longrightarrow> block len' i (map_blocks n len f xs) = f (block len i xs)"
    using assms by (rule block_map_blocks)
  then show ?thesis
    unfolding map_blocks_def [of n len' g] map_blocks_def [of n len "\<lambda>b. g (f b)"]
    by (intro concat_map_upt_cong) simp
qed

lemma block_block:
  assumes "q < m"
  shows "block len q (block (m * len) p xs) = block len (p * m + q) xs"
proof -
  have "Suc q * len \<le> m * len" using assms by (intro mult_le_mono1) simp
  then have "min len (m * len - q * len) = len" by simp
  then show ?thesis
    by (simp add: block_def drop_take algebra_simps)
qed

lemma cell_index_less: "i < a \<Longrightarrow> j < b \<Longrightarrow> i * b + j < a * (b::nat)"
proof -
  assume a: "i < a" "j < b"
  have "i * b + j < i * b + b" using a(2) by simp
  also have "\<dots> = Suc i * b" by simp
  also have "\<dots> \<le> a * b" using a(1) by (intro mult_le_mono1) simp
  finally show ?thesis .
qed

lemma length_cell:
  assumes "length xs = a * b * len" "i < a" "j < b"
  shows "length (block len (i * b + j) xs) = len"
  using assms(1) cell_index_less [OF assms(2,3)] by (rule length_block)

lemma length_transpose_row:
  assumes "length xs = a * b * len" "j < b"
  shows "length (concat (map (\<lambda>i. block len (i * b + j) xs) [0..<a])) = a * len"
  by (rule length_concat_blocks) (erule length_cell [OF assms(1) _ assms(2)])

lemma length_transpose_block:
  assumes "length xs = a * b * len"
  shows "length (transpose_block a b len xs) = a * b * len"
proof -
  have "length (transpose_block a b len xs) = b * (a * len)"
    unfolding transpose_block_def
    by (rule length_concat_blocks) (use assms in \<open>simp add: length_transpose_row\<close>)
  then show ?thesis by (simp add: mult.commute mult.left_commute)
qed

lemma block_transpose_block:
  assumes len: "length xs = a * b * len" and j: "j < b" and i: "i < a"
  shows "block len (j * a + i) (transpose_block a b len xs) = block len (i * b + j) xs"
proof -
  have row: "block (a * len) j (transpose_block a b len xs) =
      concat (map (\<lambda>i. block len (i * b + j) xs) [0..<a])"
    unfolding transpose_block_def
    by (rule block_concat) (use len j in \<open>simp_all add: length_transpose_row\<close>)
  have "block len (j * a + i) (transpose_block a b len xs) =
      block len i (block (a * len) j (transpose_block a b len xs))"
    using i by (simp add: block_block)
  also have "\<dots> = block len i (concat (map (\<lambda>i. block len (i * b + j) xs) [0..<a]))"
    by (simp only: row)
  also have "\<dots> = block len (i * b + j) xs"
    by (rule block_concat [OF length_cell [OF len _ j] i])
  finally show ?thesis .
qed

lemma transpose_block_inverse:
  assumes len: "length xs = a * b * len"
  shows "transpose_block b a len (transpose_block a b len xs) = xs"
proof -
  let ?T = "transpose_block a b len xs"
  have lenT: "length ?T = b * a * len" using length_transpose_block [OF len] by (simp add: mult.commute)
  have "transpose_block b a len ?T =
      concat (map (\<lambda>i. concat (map (\<lambda>j. block len (j * a + i) ?T) [0..<b])) [0..<a])"
    by (simp add: transpose_block_def)
  also have "\<dots> = concat (map (\<lambda>i. concat (map (\<lambda>j. block len (i * b + j) xs) [0..<b])) [0..<a])"
  proof (rule concat_map_upt_cong)
    fix i assume i: "i < a"
    show "concat (map (\<lambda>j. block len (j * a + i) ?T) [0..<b]) =
        concat (map (\<lambda>j. block len (i * b + j) xs) [0..<b])"
      by (rule concat_map_upt_cong) (use len i in \<open>simp add: block_transpose_block\<close>)
  qed
  also have "\<dots> = concat (map (\<lambda>i. block (b * len) i xs) [0..<a])"
  proof (rule concat_map_upt_cong)
    fix i assume i: "i < a"
    have l: "length (block (b * len) i xs) = b * len"
      using len i by (intro length_block [of _ a]) (simp add: mult.assoc)
    have "concat (map (\<lambda>j. block len (i * b + j) xs) [0..<b]) =
        concat (map (\<lambda>j. block len j (block (b * len) i xs)) [0..<b])"
      by (rule concat_map_upt_cong) (simp add: block_block)
    also have "\<dots> = block (b * len) i xs" using l by (rule blocks_id)
    finally show "concat (map (\<lambda>j. block len (i * b + j) xs) [0..<b]) = block (b * len) i xs" .
  qed
  also have "\<dots> = xs" using len by (intro blocks_id) (simp add: mult.assoc)
  finally show ?thesis .
qed

section \<open>The tensor operations on explicit shapes\<close>

lemma map_dims_nat_int: "map ((\<lambda>d. if d = - 1 then x else nat d) \<circ> int) ys = ys"
  by (induction ys) simp_all

lemma map_nat_int: "map (nat \<circ> int) ys = ys"
  by (induction ys) simp_all

lemma infer_size_exact: "infer_size (map int sh) (prod_list sh) = Inr sh"
proof -
  have f: "filter (\<lambda>d. d = - 1) (map int sh) = []" by (simp add: filter_empty_conv)
  have g: "filter (\<lambda>d. 0 \<le> d) (map int sh) = map int sh" by simp
  have m: "- 1 \<notin> set (map int sh)" by auto
  have l: "\<not> (\<exists>d \<in> set (map int sh). d < - 1)" by auto
  show ?thesis
    unfolding infer_size_def Let_def f g
    using m l by (simp add: map_dims_nat_int map_nat_int)
qed

lemma infer_size_infer:
  assumes "0 < prod_list pre * prod_list post" and "n = prod_list pre * prod_list post * k"
  shows "infer_size (map int pre @ [- 1] @ map int post) n = Inr (pre @ [k] @ post)"
proof -
  let ?dims = "map int pre @ [- 1] @ map int post"
  have f: "filter (\<lambda>d. d = - 1) ?dims = [- 1]" by (simp add: filter_empty_conv)
  have g: "filter (\<lambda>d. 0 \<le> d) ?dims = map int pre @ map int post" by simp
  have l: "\<not> (\<exists>d \<in> set ?dims. d < - 1)" by auto
  have d: "n div (prod_list pre * prod_list post) = k" using assms by simp
  have md: "n mod (prod_list pre * prod_list post) = 0" using assms by simp
  have ns: "prod_list (map nat (map int pre @ map int post)) = prod_list pre * prod_list post"
    by (simp add: map_nat_int)
  show ?thesis
    unfolding infer_size_def Let_def f g ns
    using l assms(1) d md by (simp add: map_dims_nat_int)
qed

lemma slice_dim_1:
  "slice_dim 1 lo stop \<lparr>shape = n # d # rest, elements = xs\<rparr> =
     \<lparr>shape = n # (max (min lo d) (case stop of None \<Rightarrow> d | Some s \<Rightarrow> min s d) - min lo d) # rest,
      elements = map_blocks n (d * prod_list rest)
        (\<lambda>b. take ((max (min lo d) (case stop of None \<Rightarrow> d | Some s \<Rightarrow> min s d) - min lo d) * prod_list rest)
                (drop (min lo d * prod_list rest) b)) xs\<rparr>"
  by (cases stop) (simp_all add: slice_dim_def Let_def)

lemma slice_dim_2:
  "slice_dim 2 lo stop \<lparr>shape = g # n # d # rest, elements = xs\<rparr> =
     \<lparr>shape = g # n # (max (min lo d) (case stop of None \<Rightarrow> d | Some s \<Rightarrow> min s d) - min lo d) # rest,
      elements = map_blocks (g * n) (d * prod_list rest)
        (\<lambda>b. take ((max (min lo d) (case stop of None \<Rightarrow> d | Some s \<Rightarrow> min s d) - min lo d) * prod_list rest)
                (drop (min lo d * prod_list rest) b)) xs\<rparr>"
  by (cases stop) (simp_all add: slice_dim_def Let_def numeral_2_eq_2)

lemma swap_dims_1:
  "swap_dims 1 \<lparr>shape = n # a # b # rest, elements = xs\<rparr> =
     \<lparr>shape = n # b # a # rest,
      elements = map_blocks n (a * b * prod_list rest) (transpose_block a b (prod_list rest)) xs\<rparr>"
  by (simp add: swap_dims_def Let_def)

lemma swap_dims_2:
  "swap_dims 2 \<lparr>shape = g # n # a # b # rest, elements = xs\<rparr> =
     \<lparr>shape = g # n # b # a # rest,
      elements = map_blocks (g * n) (a * b * prod_list rest) (transpose_block a b (prod_list rest)) xs\<rparr>"
  by (simp add: swap_dims_def Let_def numeral_2_eq_2)

lemma cat2_1:
  "cat2 1 \<lparr>shape = n # a # rest, elements = xs\<rparr> \<lparr>shape = n # b # rest, elements = ys\<rparr> =
     Inr \<lparr>shape = n # (a + b) # rest,
          elements = concat (map (\<lambda>i. block (a * prod_list rest) i xs @ block (b * prod_list rest) i ys) [0..<n])\<rparr>"
  by (simp add: cat2_def Let_def)

lemma cat2_2:
  "cat2 2 \<lparr>shape = g # n # a # rest, elements = xs\<rparr> \<lparr>shape = g # n # b # rest, elements = ys\<rparr> =
     Inr \<lparr>shape = g # n # (a + b) # rest,
          elements = concat (map (\<lambda>i. block (a * prod_list rest) i xs @ block (b * prod_list rest) i ys) [0..<g * n])\<rparr>"
  by (simp add: cat2_def Let_def numeral_2_eq_2)

section \<open>Rotary rows\<close>

lemma half_twice: "even r \<Longrightarrow> 2 * (r div 2) * len = r * (len::nat)" "even r \<Longrightarrow> r div 2 * 2 * len = r * (len::nat)"
  by auto

lemma length_rotate_rows:
  assumes "even r" "r * len \<le> length b"
  shows "length (rotate_rows r len b) = length b"
proof -
  have "length (take (r * len) b) = 2 * (r div 2) * len" using assms by (simp add: half_twice)
  then have "length (transpose_block 2 (r div 2) len (take (r * len) b)) = 2 * (r div 2) * len"
    by (rule length_transpose_block)
  then show ?thesis using assms by (simp add: rotate_rows_def half_twice)
qed

lemma length_unrotate_rows:
  assumes "even r" "r * len \<le> length b"
  shows "length (unrotate_rows r len b) = length b"
proof -
  have "length (take (r * len) b) = r div 2 * 2 * len" using assms by (simp add: half_twice)
  then have "length (transpose_block (r div 2) 2 len (take (r * len) b)) = r div 2 * 2 * len"
    by (rule length_transpose_block)
  then show ?thesis using assms by (simp add: unrotate_rows_def half_twice)
qed

lemma unrotate_rotate_rows:
  assumes "even r" "r * len \<le> length b"
  shows "unrotate_rows r len (rotate_rows r len b) = b"
proof -
  let ?a = "take (r * len) b"
  have la: "length ?a = 2 * (r div 2) * len" using assms by (simp add: half_twice)
  have lt: "length (transpose_block 2 (r div 2) len ?a) = r * len"
    using length_transpose_block [OF la] assms(1) by (simp add: half_twice)
  have "transpose_block (r div 2) 2 len (transpose_block 2 (r div 2) len ?a) = ?a"
    using la by (rule transpose_block_inverse)
  then show ?thesis using lt by (simp add: unrotate_rows_def rotate_rows_def)
qed

lemma rotate_unrotate_rows:
  assumes "even r" "r * len \<le> length b"
  shows "rotate_rows r len (unrotate_rows r len b) = b"
proof -
  let ?a = "take (r * len) b"
  have la: "length ?a = r div 2 * 2 * len" using assms by (simp add: half_twice)
  have lt: "length (transpose_block (r div 2) 2 len ?a) = r * len"
    using length_transpose_block [OF la] assms(1) by (simp add: half_twice)
  have "transpose_block 2 (r div 2) len (transpose_block (r div 2) 2 len ?a) = ?a"
    using la by (rule transpose_block_inverse)
  then show ?thesis using lt by (simp add: unrotate_rows_def rotate_rows_def)
qed

lemma map_blocks_inverse:
  assumes len: "length xs = n * len"
    and fl: "\<And>b. length b = len \<Longrightarrow> length (f b) = len"
    and inv: "\<And>b. length b = len \<Longrightarrow> g (f b) = b"
  shows "map_blocks n len g (map_blocks n len f xs) = xs"
proof -
  have bl: "\<And>i. i < n \<Longrightarrow> length (block len i xs) = len" using len by (rule length_block)
  have "map_blocks n len g (map_blocks n len f xs) = map_blocks n len (\<lambda>b. g (f b)) xs"
    by (rule map_blocks_comp) (simp add: bl fl)
  also have "\<dots> = map_blocks n len (\<lambda>b. b) xs"
    by (rule map_blocks_cong) (simp add: bl inv)
  also have "\<dots> = xs" using len by (rule map_blocks_id)
  finally show ?thesis .
qed

lemma unrotate_rotate_blocks:
  assumes "even r" "r \<le> d" "length xs = n * (d * len)"
  shows "map_blocks n (d * len) (unrotate_rows r len) (map_blocks n (d * len) (rotate_rows r len) xs) = xs"
proof (rule map_blocks_inverse [OF assms(3)])
  fix b :: "'a list" assume b: "length b = d * len"
  have "r * len \<le> length b" using assms(2) b by simp
  then show "length (rotate_rows r len b) = d * len" "unrotate_rows r len (rotate_rows r len b) = b"
    using assms(1) b by (simp_all add: length_rotate_rows unrotate_rotate_rows)
qed

lemma rotate_unrotate_blocks:
  assumes "even r" "r \<le> d" "length xs = n * (d * len)"
  shows "map_blocks n (d * len) (rotate_rows r len) (map_blocks n (d * len) (unrotate_rows r len) xs) = xs"
proof (rule map_blocks_inverse [OF assms(3)])
  fix b :: "'a list" assume b: "length b = d * len"
  have "r * len \<le> length b" using assms(2) b by simp
  then show "length (unrotate_rows r len b) = d * len" "rotate_rows r len (unrotate_rows r len b) = b"
    using assms(1) b by (simp_all add: length_unrotate_rows rotate_unrotate_rows)
qed

text \<open>
  The rotary rows of every block are cut out, transformed and joined again with the
  rows that pass: this is the transformation of each block.
\<close>

lemma recombine_blocks:
  assumes rd: "r \<le> d" and len: "length xs = n * (d * len)"
    and tl: "\<And>b. length b = r * len \<Longrightarrow> length (T b) = r * len"
  shows "concat (map (\<lambda>i.
            block (r * len) i (map_blocks n (r * len) T (map_blocks n (d * len) (take (r * len)) xs)) @
            block ((d - r) * len) i
              (map_blocks n (d * len) (\<lambda>b. take ((d - r) * len) (drop (r * len) b)) xs)) [0..<n]) =
         map_blocks n (d * len) (\<lambda>b. T (take (r * len) b) @ drop (r * len) b) xs"
  unfolding map_blocks_def [of n "d * len" "\<lambda>b. T (take (r * len) b) @ drop (r * len) b"]
proof (rule concat_map_upt_cong)
  fix i assume i: "i < n"
  let ?b = "block (d * len) i xs"
  have bl: "\<And>j. j < n \<Longrightarrow> length (block (d * len) j xs) = d * len" using len by (rule length_block)
  have rl: "r * len \<le> d * len" using rd by simp
  have tk: "\<And>j. j < n \<Longrightarrow> length (take (r * len) (block (d * len) j xs)) = r * len"
    using bl rl by simp
  have 1: "block (r * len) i (map_blocks n (d * len) (take (r * len)) xs) = take (r * len) ?b"
    by (rule block_map_blocks [where f = "take (r * len)" and len = "d * len", OF tk i])
  have 2: "block (r * len) i (map_blocks n (r * len) T (map_blocks n (d * len) (take (r * len)) xs)) =
      T (take (r * len) ?b)"
  proof -
    have "block (r * len) i (map_blocks n (r * len) T (map_blocks n (d * len) (take (r * len)) xs)) =
        T (block (r * len) i (map_blocks n (d * len) (take (r * len)) xs))"
    proof (rule block_map_blocks [where f = T and len = "r * len" and len' = "r * len", OF _ i])
      fix j assume j: "j < n"
      have "block (r * len) j (map_blocks n (d * len) (take (r * len)) xs) = take (r * len) (block (d * len) j xs)"
        by (rule block_map_blocks [where f = "take (r * len)" and len = "d * len", OF tk j])
      then show "length (T (block (r * len) j (map_blocks n (d * len) (take (r * len)) xs))) = r * len"
        using tl tk [OF j] by simp
    qed
    then show ?thesis by (simp only: 1)
  qed
  have dl: "\<And>j. j < n \<Longrightarrow>
      length (take ((d - r) * len) (drop (r * len) (block (d * len) j xs))) = (d - r) * len"
    using bl by (simp add: diff_mult_distrib)
  have 3: "block ((d - r) * len) i
      (map_blocks n (d * len) (\<lambda>b. take ((d - r) * len) (drop (r * len) b)) xs) =
      take ((d - r) * len) (drop (r * len) ?b)"
    by (rule block_map_blocks [where f = "\<lambda>b. take ((d - r) * len) (drop (r * len) b)" and len = "d * len", OF dl i])
  have 4: "take ((d - r) * len) (drop (r * len) ?b) = drop (r * len) ?b"
    using bl [OF i] by (simp add: diff_mult_distrib)
  show "block (r * len) i (map_blocks n (r * len) T (map_blocks n (d * len) (take (r * len)) xs)) @
        block ((d - r) * len) i
          (map_blocks n (d * len) (\<lambda>b. take ((d - r) * len) (drop (r * len) b)) xs) =
        T (take (r * len) ?b) @ drop (r * len) ?b"
    by (simp only: 2 3 4)
qed

lemma reshape_infer:
  assumes "0 < prod_list pre * prod_list post" and "length xs = prod_list pre * prod_list post * k"
  shows "reshape (map int pre @ [- 1] @ map int post) \<lparr>shape = sh, elements = xs\<rparr> =
         Inr \<lparr>shape = pre @ [k] @ post, elements = xs\<rparr>"
  using infer_size_infer [OF assms] by (simp add: reshape_def)

lemma reshape_exact:
  assumes "length xs = prod_list sh'"
  shows "reshape (map int sh') \<lparr>shape = sh, elements = xs\<rparr> = Inr \<lparr>shape = sh', elements = xs\<rparr>"
  using infer_size_exact [of sh'] assms by (simp add: reshape_def)

lemma length_take_blocks:
  assumes "r \<le> d" "length xs = n * (d * len)"
  shows "length (map_blocks n (d * len) (take (r * len)) xs) = n * (r * len)"
proof (rule length_map_blocks)
  fix i assume "i < n"
  then have "length (block (d * len) i xs) = d * len" using assms(2) by (rule length_block [rotated])
  then show "length (take (r * len) (block (d * len) i xs)) = r * len" using assms(1) by simp
qed

lemma length_transpose_blocks:
  assumes "length ys = n * (a * b * len)"
  shows "length (map_blocks n (a * b * len) (transpose_block a b len) ys) = n * (a * b * len)"
proof (rule length_map_blocks)
  fix i assume "i < n"
  then have "length (block (a * b * len) i ys) = a * b * len" using assms by (rule length_block [rotated])
  then show "length (transpose_block a b len (block (a * b * len) i ys)) = a * b * len"
    by (rule length_transpose_block)
qed

lemma length_rotate_blocks:
  assumes "even r" "r \<le> d" "length xs = n * (d * len)"
  shows "length (map_blocks n (d * len) (rotate_rows r len) xs) = n * (d * len)"
proof (rule length_map_blocks)
  fix i assume "i < n"
  then have "length (block (d * len) i xs) = d * len" using assms(3) by (rule length_block [rotated])
  then show "length (rotate_rows r len (block (d * len) i xs)) = d * len"
    using assms(1,2) by (simp add: length_rotate_rows)
qed

lemma length_unrotate_blocks:
  assumes "even r" "r \<le> d" "length xs = n * (d * len)"
  shows "length (map_blocks n (d * len) (unrotate_rows r len) xs) = n * (d * len)"
proof (rule length_map_blocks)
  fix i assume "i < n"
  then have "length (block (d * len) i xs) = d * len" using assms(3) by (rule length_block [rotated])
  then show "length (unrotate_rows r len (block (d * len) i xs)) = d * len"
    using assms(1,2) by (simp add: length_unrotate_rows)
qed

text \<open>
  The pieces of the rotation of the first \<open>r\<close> rows of every block, as the helpers
  compute it: the two slices, and the concatenation of the rotary rows, once their
  \<open>a\<close> groups of \<open>b\<close> rows have been exchanged, with the rows that pass.
\<close>

lemma slice_rotary:
  assumes "r \<le> d"
  shows "slice_dim 1 0 (Some r) \<lparr>shape = n # d # rest, elements = xs\<rparr> =
      \<lparr>shape = n # r # rest, elements = map_blocks n (d * prod_list rest) (take (r * prod_list rest)) xs\<rparr>"
  using assms slice_dim_1 [of 0 "Some r" n d rest xs] by (simp add: min_def max_def)

lemma slice_pass:
  assumes "r \<le> d"
  shows "slice_dim 1 r None \<lparr>shape = n # d # rest, elements = xs\<rparr> =
      \<lparr>shape = n # (d - r) # rest,
       elements = map_blocks n (d * prod_list rest)
         (\<lambda>b. take ((d - r) * prod_list rest) (drop (r * prod_list rest) b)) xs\<rparr>"
  using assms slice_dim_1 [of r None n d rest xs] by (simp add: min_def max_def)

lemma cat_rotated:
  fixes xs :: "'a list"
  assumes ab: "a * b = r" and rd: "r \<le> d" and len: "length xs = n * (d * prod_list rest)"
  shows "cat 1 [\<lparr>shape = n # r # rest,
                 elements = map_blocks n (r * prod_list rest) (transpose_block a b (prod_list rest))
                   (map_blocks n (d * prod_list rest) (take (r * prod_list rest)) xs)\<rparr>,
                \<lparr>shape = n # (d - r) # rest,
                 elements = map_blocks n (d * prod_list rest)
                   (\<lambda>b. take ((d - r) * prod_list rest) (drop (r * prod_list rest) b)) xs\<rparr>] =
         Inr \<lparr>shape = n # d # rest,
              elements = map_blocks n (d * prod_list rest)
                (\<lambda>b'. transpose_block a b (prod_list rest) (take (r * prod_list rest) b') @
                       drop (r * prod_list rest) b') xs\<rparr>"
proof -
  let ?c = "prod_list rest"
  have tl: "\<And>b'::'a list. length b' = r * ?c \<Longrightarrow> length (transpose_block a b ?c b') = r * ?c"
    using length_transpose_block [of _ a b ?c] ab by simp
  have rc: "concat (map (\<lambda>i.
            block (r * ?c) i (map_blocks n (r * ?c) (transpose_block a b ?c) (map_blocks n (d * ?c) (take (r * ?c)) xs)) @
            block ((d - r) * ?c) i
              (map_blocks n (d * ?c) (\<lambda>b. take ((d - r) * ?c) (drop (r * ?c) b)) xs)) [0..<n]) =
         map_blocks n (d * ?c) (\<lambda>b'. transpose_block a b ?c (take (r * ?c) b') @ drop (r * ?c) b') xs"
    using rd len tl by (rule recombine_blocks)
  have ct: "cat2 1 \<lparr>shape = n # r # rest,
        elements = map_blocks n (r * ?c) (transpose_block a b ?c) (map_blocks n (d * ?c) (take (r * ?c)) xs)\<rparr>
      \<lparr>shape = n # (d - r) # rest,
       elements = map_blocks n (d * ?c) (\<lambda>b. take ((d - r) * ?c) (drop (r * ?c) b)) xs\<rparr> =
      Inr \<lparr>shape = n # d # rest,
        elements = map_blocks n (d * ?c) (\<lambda>b'. transpose_block a b ?c (take (r * ?c) b') @ drop (r * ?c) b') xs\<rparr>"
    unfolding cat2_1 rc using rd by simp
  show ?thesis
    unfolding cat.simps ct by simp
qed

section \<open>falcon\_40b.py: the check of the packed size\<close>

lemma qkv_sizes_ok:
  assumes "model_size cs ''hidden_size'' = Inr hidden" and "model_size cs ''num_heads'' = Inr heads"
    and "model_sub_size cs ''extra_attention_params'' ''num_kv_groups'' = Inr groups"
    and "0 < heads" and "0 < groups"
  shows "qkv_sizes cs = Inr (hidden div heads, groups, heads div groups)"
  using assms by (simp add: qkv_sizes_def floor_div_def)

lemma endswith_last:
  assumes "endswith s suffix" and "suffix \<noteq> []"
  shows "last s = last suffix"
proof -
  have d: "drop (length s - length suffix) s = suffix" using assms(1) by (simp add: endswith_def)
  then have "drop (length s - length suffix) s \<noteq> []" using assms(2) by simp
  then have "last (drop (length s - length suffix) s) = last s" by simp
  then show ?thesis using d by simp
qed

lemma endswith_weight_not_bias: "endswith k ''.weight'' \<Longrightarrow> \<not> endswith k ''.bias''"
proof
  assume "endswith k ''.weight''" and "endswith k ''.bias''"
  then show False
    using endswith_last [of k "''.weight''"] endswith_last [of k "''.bias''"] by simp
qed

lemma qkv_converter_hf_to_cs_bias_invalid:
  assumes sizes: "qkv_sizes cs = Inr (head_size, groups, group_size)"
    and heads: "model_size cs ''num_heads'' = Inr heads"
    and key: "endswith new_key ''.bias''"
    and old: "map_of old_sd old_key = Some packed" and sh: "shape packed = [packed_dim]"
    and ne: "head_size * (groups * 2 + heads) \<noteq> packed_dim"
  shows "qkv_converter_hf_to_cs old_key new_key old_sd new_sd cs =
         Inl (AssertionError (invalid_shape_msg (shape packed) old_key))"
  using ne by (simp add: qkv_converter_hf_to_cs_def sizes heads key old sh)

lemma qkv_converter_hf_to_cs_weight_invalid:
  assumes sizes: "qkv_sizes cs = Inr (head_size, groups, group_size)"
    and heads: "model_size cs ''num_heads'' = Inr heads"
    and key: "endswith new_key ''.weight''"
    and old: "map_of old_sd old_key = Some packed" and sh: "shape packed = [packed_dim, cols]"
    and ne: "head_size * (groups * 2 + heads) \<noteq> packed_dim"
  shows "qkv_converter_hf_to_cs old_key new_key old_sd new_sd cs =
         Inl (AssertionError (invalid_shape_msg (shape packed) old_key))"
  using ne endswith_weight_not_bias [OF key]
  by (simp add: qkv_converter_hf_to_cs_def sizes heads key old sh)

lemma model_size_example_falcon:
  "model_size (example_falcon_config hidden heads groups) ''hidden_size'' = Inr hidden"
  "model_size (example_falcon_config hidden heads groups) ''num_heads'' = Inr heads"
  "model_sub_size (example_falcon_config hidden heads groups) ''extra_attention_params'' ''num_kv_groups'' =
     Inr groups"
  by (simp_all add: model_size_def model_sub_size_def example_falcon_config_def cfg_get_def sub_get_def
      as_size_def)

text \<open>
  C6. The check of the packed size does not see a number of heads that is not a
  multiple of the number of groups. With \<open>hidden_size = 40\<close>, 5 heads and 2 groups,
  \<open>head_size\<close> is 8 and \<open>kv_group_size\<close> is \<open>5 // 2 = 2\<close>; a packed bias of
  \<open>8 * (2 * 2 + 5) = 72\<close> elements passes the assertion, is viewed as \<open>(2, 4, 9)\<close>, and
  \<open>qkv_converter_hf_to_cs\<close> returns: it writes a query of 36 elements where 5 heads of
  size 8 have 40, and a key and a value of 18 elements where 2 groups have 16, every
  row of 9 elements running over two heads.
\<close>

theorem qkv_indivisible_heads_written:
  "qkv_sizes (example_falcon_config 40 5 2) = Inr (8, 2, 2) \<and>
   qkv_converter_hf_to_cs ''h.0.query_key_value.bias'' ''h.0.proj_q_dense_layer.bias''
     [(''h.0.query_key_value.bias'', \<lparr>shape = [72], elements = map int [0..<72]\<rparr>)] []
     (example_falcon_config 40 5 2) =
   Inr [(''h.0.proj_q_dense_layer.bias'',
         \<lparr>shape = [36],
          elements = [0, 4, 1, 5, 2, 6, 3, 7, 8, 9, 13, 10, 14, 11, 15, 12, 16, 17,
                      36, 40, 37, 41, 38, 42, 39, 43, 44, 45, 49, 46, 50, 47, 51, 48, 52, 53]\<rparr>),
        (''h.0.proj_k_dense_layer.bias'',
         \<lparr>shape = [18],
          elements = [18, 22, 19, 23, 20, 24, 21, 25, 26, 54, 58, 55, 59, 56, 60, 57, 61, 62]\<rparr>),
        (''h.0.proj_v_dense_layer.bias'',
         \<lparr>shape = [18],
          elements = [27, 28, 29, 30, 31, 32, 33, 34, 35, 63, 64, 65, 66, 67, 68, 69, 70, 71]\<rparr>)]"
  by code_simp

section \<open>falcon\_40b.py: the helpers in closed form\<close>

lemma slice_rotary2:
  assumes "r \<le> d"
  shows "slice_dim 2 0 (Some r) \<lparr>shape = g # n # d # rest, elements = xs\<rparr> =
      \<lparr>shape = g # n # r # rest,
       elements = map_blocks (g * n) (d * prod_list rest) (take (r * prod_list rest)) xs\<rparr>"
  using assms slice_dim_2 [of 0 "Some r" g n d rest xs] by (simp add: min_def max_def)

lemma slice_pass2:
  assumes "r \<le> d"
  shows "slice_dim 2 r None \<lparr>shape = g # n # d # rest, elements = xs\<rparr> =
      \<lparr>shape = g # n # (d - r) # rest,
       elements = map_blocks (g * n) (d * prod_list rest)
         (\<lambda>b. take ((d - r) * prod_list rest) (drop (r * prod_list rest) b)) xs\<rparr>"
  using assms slice_dim_2 [of r None g n d rest xs] by (simp add: min_def max_def)

lemma cat_rotated2:
  fixes xs :: "'a list"
  assumes ab: "a * b = r" and rd: "r \<le> d" and len: "length xs = g * n * (d * prod_list rest)"
  shows "cat 2 [\<lparr>shape = g # n # r # rest,
                 elements = map_blocks (g * n) (r * prod_list rest) (transpose_block a b (prod_list rest))
                   (map_blocks (g * n) (d * prod_list rest) (take (r * prod_list rest)) xs)\<rparr>,
                \<lparr>shape = g # n # (d - r) # rest,
                 elements = map_blocks (g * n) (d * prod_list rest)
                   (\<lambda>b. take ((d - r) * prod_list rest) (drop (r * prod_list rest) b)) xs\<rparr>] =
         Inr \<lparr>shape = g # n # d # rest,
              elements = map_blocks (g * n) (d * prod_list rest)
                (\<lambda>b'. transpose_block a b (prod_list rest) (take (r * prod_list rest) b') @
                       drop (r * prod_list rest) b') xs\<rparr>"
proof -
  let ?c = "prod_list rest"
  let ?m = "g * n"
  have tl: "\<And>b'::'a list. length b' = r * ?c \<Longrightarrow> length (transpose_block a b ?c b') = r * ?c"
    using length_transpose_block [of _ a b ?c] ab by simp
  have rc: "concat (map (\<lambda>i.
            block (r * ?c) i (map_blocks ?m (r * ?c) (transpose_block a b ?c) (map_blocks ?m (d * ?c) (take (r * ?c)) xs)) @
            block ((d - r) * ?c) i
              (map_blocks ?m (d * ?c) (\<lambda>b. take ((d - r) * ?c) (drop (r * ?c) b)) xs)) [0..<?m]) =
         map_blocks ?m (d * ?c) (\<lambda>b'. transpose_block a b ?c (take (r * ?c) b') @ drop (r * ?c) b') xs"
    using rd len tl by (rule recombine_blocks)
  have ct: "cat2 2 \<lparr>shape = g # n # r # rest,
        elements = map_blocks ?m (r * ?c) (transpose_block a b ?c) (map_blocks ?m (d * ?c) (take (r * ?c)) xs)\<rparr>
      \<lparr>shape = g # n # (d - r) # rest,
       elements = map_blocks ?m (d * ?c) (\<lambda>b. take ((d - r) * ?c) (drop (r * ?c) b)) xs\<rparr> =
      Inr \<lparr>shape = g # n # d # rest,
        elements = map_blocks ?m (d * ?c) (\<lambda>b'. transpose_block a b ?c (take (r * ?c) b') @ drop (r * ?c) b') xs\<rparr>"
    unfolding cat2_2 rc using rd by simp
  show ?thesis
    unfolding cat.simps ct by simp
qed

lemma falcon_interleave_helper_weight:
  fixes xs :: "'a list"
  assumes ev: "even r" and rd: "r \<le> d" and pos: "0 < g" "0 < n" "0 < h"
    and len: "length xs = g * n * (d * h)"
  shows "falcon_interleave_helper r \<lparr>shape = [g, n, d, h], elements = xs\<rparr> =
         Inr \<lparr>shape = [g, n, d, h], elements = map_blocks (g * n) (d * h) (rotate_rows r h) xs\<rparr>"
proof -
  let ?E0 = "map_blocks (g * n) (d * h) (take (r * h)) xs"
  let ?E1 = "map_blocks (g * n) (r * h) (transpose_block 2 (r div 2) h) ?E0"
  have l0: "length ?E0 = g * n * (r * h)" using rd len by (rule length_take_blocks)
  have l1: "length ?E1 = g * n * (r * h)"
    using length_transpose_blocks [of ?E0 "g * n" 2 "r div 2" h] l0 ev by (simp add: half_twice)
  have s1: "slice_dim 2 0 (Some r) \<lparr>shape = [g, n, d, h], elements = xs\<rparr> =
      \<lparr>shape = [g, n, r, h], elements = ?E0\<rparr>"
    using slice_rotary2 [OF rd, of g n "[h]" xs] by simp
  have s2: "slice_dim 2 r None \<lparr>shape = [g, n, d, h], elements = xs\<rparr> =
      \<lparr>shape = [g, n, d - r, h],
       elements = map_blocks (g * n) (d * h) (\<lambda>b. take ((d - r) * h) (drop (r * h) b)) xs\<rparr>"
    using slice_pass2 [OF rd, of g n "[h]" xs] by simp
  have r1: "reshape [int g, int n, 2, - 1, int h] \<lparr>shape = [g, n, r, h], elements = ?E0\<rparr> =
      Inr \<lparr>shape = [g, n, 2, r div 2, h], elements = ?E0\<rparr>"
    using reshape_infer [of "[g, n, 2]" "[h]" ?E0 "r div 2" "[g, n, r, h]"] pos l0 ev by simp
  have sw: "swap_dims 2 \<lparr>shape = [g, n, 2, r div 2, h], elements = ?E0\<rparr> =
      \<lparr>shape = [g, n, r div 2, 2, h], elements = ?E1\<rparr>"
    using swap_dims_2 [of g n 2 "r div 2" "[h]" ?E0] ev by (simp add: half_twice)
  have r2: "reshape [int g, int n, - 1, int h] \<lparr>shape = [g, n, r div 2, 2, h], elements = ?E1\<rparr> =
      Inr \<lparr>shape = [g, n, r, h], elements = ?E1\<rparr>"
    using reshape_infer [of "[g, n]" "[h]" ?E1 r "[g, n, r div 2, 2, h]"] pos l1 by simp
  have ct: "cat 2 [\<lparr>shape = [g, n, r, h], elements = ?E1\<rparr>,
      \<lparr>shape = [g, n, d - r, h],
       elements = map_blocks (g * n) (d * h) (\<lambda>b. take ((d - r) * h) (drop (r * h) b)) xs\<rparr>] =
      Inr \<lparr>shape = [g, n, d, h], elements = map_blocks (g * n) (d * h) (rotate_rows r h) xs\<rparr>"
    using cat_rotated2 [of 2 "r div 2" r d xs g n "[h]"] ev rd len by (simp add: rotate_rows_def [abs_def])
  show ?thesis
    using s1 s2 r1 sw r2 ct by (simp add: falcon_interleave_helper_def)
qed

lemma falcon_interleave_helper_bias:
  fixes xs :: "'a list"
  assumes ev: "even r" and rd: "r \<le> d" and pos: "0 < g" "0 < n"
    and len: "length xs = g * n * d"
  shows "falcon_interleave_helper r \<lparr>shape = [g, n, d], elements = xs\<rparr> =
         Inr \<lparr>shape = [g, n, d], elements = map_blocks (g * n) d (rotate_rows r 1) xs\<rparr>"
proof -
  let ?E0 = "map_blocks (g * n) d (take r) xs"
  let ?E1 = "map_blocks (g * n) r (transpose_block 2 (r div 2) 1) ?E0"
  have l0: "length ?E0 = g * n * r" using length_take_blocks [of r d xs "g * n" 1] rd len by simp
  have l1: "length ?E1 = g * n * r"
    using length_transpose_blocks [of ?E0 "g * n" 2 "r div 2" 1] l0 ev by simp
  have s1: "slice_dim 2 0 (Some r) \<lparr>shape = [g, n, d], elements = xs\<rparr> =
      \<lparr>shape = [g, n, r], elements = ?E0\<rparr>"
    using slice_rotary2 [OF rd, of g n "[]" xs] by simp
  have s2: "slice_dim 2 r None \<lparr>shape = [g, n, d], elements = xs\<rparr> =
      \<lparr>shape = [g, n, d - r], elements = map_blocks (g * n) d (\<lambda>b. take (d - r) (drop r b)) xs\<rparr>"
    using slice_pass2 [OF rd, of g n "[]" xs] by simp
  have r1: "reshape [int g, int n, 2, - 1] \<lparr>shape = [g, n, r], elements = ?E0\<rparr> =
      Inr \<lparr>shape = [g, n, 2, r div 2], elements = ?E0\<rparr>"
    using reshape_infer [of "[g, n, 2]" "[]" ?E0 "r div 2" "[g, n, r]"] pos l0 ev by simp
  have sw: "swap_dims 2 \<lparr>shape = [g, n, 2, r div 2], elements = ?E0\<rparr> =
      \<lparr>shape = [g, n, r div 2, 2], elements = ?E1\<rparr>"
    using swap_dims_2 [of g n 2 "r div 2" "[]" ?E0] ev by simp
  have r2: "reshape [int g, int n, - 1] \<lparr>shape = [g, n, r div 2, 2], elements = ?E1\<rparr> =
      Inr \<lparr>shape = [g, n, r], elements = ?E1\<rparr>"
    using reshape_infer [of "[g, n]" "[]" ?E1 r "[g, n, r div 2, 2]"] pos l1 by simp
  have ct: "cat 2 [\<lparr>shape = [g, n, r], elements = ?E1\<rparr>,
      \<lparr>shape = [g, n, d - r], elements = map_blocks (g * n) d (\<lambda>b. take (d - r) (drop r b)) xs\<rparr>] =
      Inr \<lparr>shape = [g, n, d], elements = map_blocks (g * n) d (rotate_rows r 1) xs\<rparr>"
    using cat_rotated2 [of 2 "r div 2" r d xs g n "[]"] ev rd len by (simp add: rotate_rows_def [abs_def])
  show ?thesis
    using s1 s2 r1 sw r2 ct by (simp add: falcon_interleave_helper_def)
qed

lemma falcon_reverse_interleave_helper_weight:
  fixes xs :: "'a list"
  assumes ev: "even r" and rd: "r \<le> d" and pos: "0 < g" "0 < n" "0 < h"
    and len: "length xs = g * n * (d * h)"
  shows "falcon_reverse_interleave_helper r \<lparr>shape = [m, h], elements = xs\<rparr> n g =
         Inr \<lparr>shape = [g, n, d, h], elements = map_blocks (g * n) (d * h) (unrotate_rows r h) xs\<rparr>"
proof -
  let ?E0 = "map_blocks (g * n) (d * h) (take (r * h)) xs"
  let ?E1 = "map_blocks (g * n) (r * h) (transpose_block (r div 2) 2 h) ?E0"
  have l0: "length ?E0 = g * n * (r * h)" using rd len by (rule length_take_blocks)
  have l1: "length ?E1 = g * n * (r * h)"
    using length_transpose_blocks [of ?E0 "g * n" "r div 2" 2 h] l0 ev by (simp add: half_twice)
  have r0: "reshape [int g, int n, - 1, int h] \<lparr>shape = [m, h], elements = xs\<rparr> =
      Inr \<lparr>shape = [g, n, d, h], elements = xs\<rparr>"
    using reshape_infer [of "[g, n]" "[h]" xs d "[m, h]"] pos len by simp
  have s1: "slice_dim 2 0 (Some r) \<lparr>shape = [g, n, d, h], elements = xs\<rparr> =
      \<lparr>shape = [g, n, r, h], elements = ?E0\<rparr>"
    using slice_rotary2 [OF rd, of g n "[h]" xs] by simp
  have s2: "slice_dim 2 r None \<lparr>shape = [g, n, d, h], elements = xs\<rparr> =
      \<lparr>shape = [g, n, d - r, h],
       elements = map_blocks (g * n) (d * h) (\<lambda>b. take ((d - r) * h) (drop (r * h) b)) xs\<rparr>"
    using slice_pass2 [OF rd, of g n "[h]" xs] by simp
  have r1: "reshape [int g, int n, - 1, 2, int h] \<lparr>shape = [g, n, r, h], elements = ?E0\<rparr> =
      Inr \<lparr>shape = [g, n, r div 2, 2, h], elements = ?E0\<rparr>"
    using reshape_infer [of "[g, n]" "[2, h]" ?E0 "r div 2" "[g, n, r, h]"] pos l0 ev by simp
  have sw: "swap_dims 2 \<lparr>shape = [g, n, r div 2, 2, h], elements = ?E0\<rparr> =
      \<lparr>shape = [g, n, 2, r div 2, h], elements = ?E1\<rparr>"
    using swap_dims_2 [of g n "r div 2" 2 "[h]" ?E0] ev by (simp add: half_twice)
  have r2: "reshape [int g, int n, int r, int h] \<lparr>shape = [g, n, 2, r div 2, h], elements = ?E1\<rparr> =
      Inr \<lparr>shape = [g, n, r, h], elements = ?E1\<rparr>"
    using reshape_exact [of ?E1 "[g, n, r, h]" "[g, n, 2, r div 2, h]"] l1 by simp
  have ct: "cat 2 [\<lparr>shape = [g, n, r, h], elements = ?E1\<rparr>,
      \<lparr>shape = [g, n, d - r, h],
       elements = map_blocks (g * n) (d * h) (\<lambda>b. take ((d - r) * h) (drop (r * h) b)) xs\<rparr>] =
      Inr \<lparr>shape = [g, n, d, h], elements = map_blocks (g * n) (d * h) (unrotate_rows r h) xs\<rparr>"
    using cat_rotated2 [of "r div 2" 2 r d xs g n "[h]"] ev rd len by (simp add: unrotate_rows_def [abs_def])
  show ?thesis
    using r0 s1 s2 r1 sw r2 ct by (simp add: falcon_reverse_interleave_helper_def)
qed

lemma falcon_reverse_interleave_helper_bias:
  fixes xs :: "'a list"
  assumes ev: "even r" and rd: "r \<le> d" and pos: "0 < g" "0 < n"
    and len: "length xs = g * n * d"
  shows "falcon_reverse_interleave_helper r \<lparr>shape = [m], elements = xs\<rparr> n g =
         Inr \<lparr>shape = [g, n, d], elements = map_blocks (g * n) d (unrotate_rows r 1) xs\<rparr>"
proof -
  let ?E0 = "map_blocks (g * n) d (take r) xs"
  let ?E1 = "map_blocks (g * n) r (transpose_block (r div 2) 2 1) ?E0"
  have l0: "length ?E0 = g * n * r" using length_take_blocks [of r d xs "g * n" 1] rd len by simp
  have l1: "length ?E1 = g * n * r"
    using length_transpose_blocks [of ?E0 "g * n" "r div 2" 2 1] l0 ev by simp
  have r0: "reshape [int g, int n, - 1] \<lparr>shape = [m], elements = xs\<rparr> =
      Inr \<lparr>shape = [g, n, d], elements = xs\<rparr>"
    using reshape_infer [of "[g, n]" "[]" xs d "[m]"] pos len by simp
  have s1: "slice_dim 2 0 (Some r) \<lparr>shape = [g, n, d], elements = xs\<rparr> =
      \<lparr>shape = [g, n, r], elements = ?E0\<rparr>"
    using slice_rotary2 [OF rd, of g n "[]" xs] by simp
  have s2: "slice_dim 2 r None \<lparr>shape = [g, n, d], elements = xs\<rparr> =
      \<lparr>shape = [g, n, d - r], elements = map_blocks (g * n) d (\<lambda>b. take (d - r) (drop r b)) xs\<rparr>"
    using slice_pass2 [OF rd, of g n "[]" xs] by simp
  have r1: "reshape [int g, int n, - 1, 2] \<lparr>shape = [g, n, r], elements = ?E0\<rparr> =
      Inr \<lparr>shape = [g, n, r div 2, 2], elements = ?E0\<rparr>"
    using reshape_infer [of "[g, n]" "[2]" ?E0 "r div 2" "[g, n, r]"] pos l0 ev by simp
  have sw: "swap_dims 2 \<lparr>shape = [g, n, r div 2, 2], elements = ?E0\<rparr> =
      \<lparr>shape = [g, n, 2, r div 2], elements = ?E1\<rparr>"
    using swap_dims_2 [of g n "r div 2" 2 "[]" ?E0] ev by simp
  have r2: "reshape [int g, int n, - 1] \<lparr>shape = [g, n, 2, r div 2], elements = ?E1\<rparr> =
      Inr \<lparr>shape = [g, n, r], elements = ?E1\<rparr>"
    using reshape_infer [of "[g, n]" "[]" ?E1 r "[g, n, 2, r div 2]"] pos l1 by simp
  have ct: "cat 2 [\<lparr>shape = [g, n, r], elements = ?E1\<rparr>,
      \<lparr>shape = [g, n, d - r], elements = map_blocks (g * n) d (\<lambda>b. take (d - r) (drop r b)) xs\<rparr>] =
      Inr \<lparr>shape = [g, n, d], elements = map_blocks (g * n) d (unrotate_rows r 1) xs\<rparr>"
    using cat_rotated2 [of "r div 2" 2 r d xs g n "[]"] ev rd len by (simp add: unrotate_rows_def [abs_def])
  show ?thesis
    using r0 s1 s2 r1 sw r2 ct by (simp add: falcon_reverse_interleave_helper_def)
qed

lemma length_group:
  assumes "length xs = g * ((s + 2) * len)" "i < g"
  shows "length (block ((s + 2) * len) i xs) = (s + 2) * len"
  using assms by (rule length_block)

lemma length_unpack_q:
  assumes "length xs = g * ((s + 2) * len)"
  shows "length (unpack_q g s len xs) = g * (s * len)"
  unfolding unpack_q_def
proof (rule length_map_blocks)
  fix i assume "i < g"
  then show "length (take (s * len) (block ((s + 2) * len) i xs)) = s * len"
    using length_group [OF assms] by simp
qed

lemma length_unpack_k:
  assumes "length xs = g * ((s + 2) * len)"
  shows "length (unpack_k g s len xs) = g * len"
  unfolding unpack_k_def
proof (rule length_map_blocks)
  fix i assume "i < g"
  then show "length (take len (drop (s * len) (block ((s + 2) * len) i xs))) = len"
    using length_group [OF assms] by simp
qed

lemma length_unpack_v:
  assumes "length xs = g * ((s + 2) * len)"
  shows "length (unpack_v g s len xs) = g * len"
  unfolding unpack_v_def
proof (rule length_map_blocks)
  fix i assume "i < g"
  then show "length (take len (drop ((s + 1) * len) (block ((s + 2) * len) i xs))) = len"
    using length_group [OF assms] by simp
qed

lemma length_packed_group:
  assumes "length qs = g * (s * len)" "length ks = g * len" "length vs = g * len" "i < g"
  shows "length (block (s * len) i qs @ block len i ks @ block len i vs) = (s + 2) * len"
  using length_block [OF assms(1,4)] length_block [OF assms(2,4)] length_block [OF assms(3,4)]
  by simp

lemma length_pack_qkv:
  assumes "length qs = g * (s * len)" "length ks = g * len" "length vs = g * len"
  shows "length (pack_qkv g s len qs ks vs) = g * ((s + 2) * len)"
  unfolding pack_qkv_def
  by (rule length_concat_blocks) (rule length_packed_group [OF assms])

lemma group_parts:
  assumes "length b = (s + 2) * len"
  shows "take (s * len) b @ take len (drop (s * len) b) @ take len (drop ((s + 1) * len) b) = b"
proof -
  have "take len (drop ((s + 1) * len) b) = drop ((s + 1) * len) b" using assms by simp
  moreover have "take (s * len) b @ take len (drop (s * len) b) = take ((s + 1) * len) b"
    by (simp add: take_add [symmetric] add.commute)
  ultimately show ?thesis by (metis append_assoc append_take_drop_id)
qed

lemma pack_unpack:
  assumes "length xs = g * ((s + 2) * len)"
  shows "pack_qkv g s len (unpack_q g s len xs) (unpack_k g s len xs) (unpack_v g s len xs) = xs"
proof -
  have "pack_qkv g s len (unpack_q g s len xs) (unpack_k g s len xs) (unpack_v g s len xs) =
      concat (map (\<lambda>i. block ((s + 2) * len) i xs) [0..<g])"
    unfolding pack_qkv_def
  proof (rule concat_map_upt_cong)
    fix i assume i: "i < g"
    let ?b = "block ((s + 2) * len) i xs"
    have bl: "\<And>j. j < g \<Longrightarrow> length (block ((s + 2) * len) j xs) = (s + 2) * len"
      using assms by (rule length_group)
    have q: "block (s * len) i (unpack_q g s len xs) = take (s * len) ?b"
      unfolding unpack_q_def
      by (rule block_map_blocks [where f = "take (s * len)", OF _ i]) (use bl in simp)
    have k: "block len i (unpack_k g s len xs) = take len (drop (s * len) ?b)"
      unfolding unpack_k_def
      by (rule block_map_blocks [where f = "\<lambda>b. take len (drop (s * len) b)", OF _ i]) (use bl in simp)
    have v: "block len i (unpack_v g s len xs) = take len (drop ((s + 1) * len) ?b)"
      unfolding unpack_v_def
      by (rule block_map_blocks [where f = "\<lambda>b. take len (drop ((s + 1) * len) b)", OF _ i])
        (use bl in simp)
    show "block (s * len) i (unpack_q g s len xs) @ block len i (unpack_k g s len xs) @
        block len i (unpack_v g s len xs) = ?b"
      unfolding q k v using bl [OF i] by (rule group_parts)
  qed
  also have "\<dots> = xs" using assms by (rule blocks_id)
  finally show ?thesis .
qed

lemma block_pack_qkv:
  assumes "length qs = g * (s * len)" "length ks = g * len" "length vs = g * len" "i < g"
  shows "block ((s + 2) * len) i (pack_qkv g s len qs ks vs) =
         block (s * len) i qs @ block len i ks @ block len i vs"
  unfolding pack_qkv_def
  by (rule block_concat [where f = "\<lambda>i. block (s * len) i qs @ block len i ks @ block len i vs",
        OF length_packed_group [OF assms(1,2,3)] assms(4)])

lemma unpack_q_pack:
  assumes "length qs = g * (s * len)" "length ks = g * len" "length vs = g * len"
  shows "unpack_q g s len (pack_qkv g s len qs ks vs) = qs"
proof -
  have "unpack_q g s len (pack_qkv g s len qs ks vs) = concat (map (\<lambda>i. block (s * len) i qs) [0..<g])"
    unfolding unpack_q_def map_blocks_def
  proof (rule concat_map_upt_cong)
    fix i assume i: "i < g"
    show "take (s * len) (block ((s + 2) * len) i (pack_qkv g s len qs ks vs)) = block (s * len) i qs"
      unfolding block_pack_qkv [OF assms i] using length_block [OF assms(1) i] by simp
  qed
  also have "\<dots> = qs" using assms(1) by (rule blocks_id)
  finally show ?thesis .
qed

lemma unpack_k_pack:
  assumes "length qs = g * (s * len)" "length ks = g * len" "length vs = g * len"
  shows "unpack_k g s len (pack_qkv g s len qs ks vs) = ks"
proof -
  have "unpack_k g s len (pack_qkv g s len qs ks vs) = concat (map (\<lambda>i. block len i ks) [0..<g])"
    unfolding unpack_k_def map_blocks_def
  proof (rule concat_map_upt_cong)
    fix i assume i: "i < g"
    show "take len (drop (s * len) (block ((s + 2) * len) i (pack_qkv g s len qs ks vs))) = block len i ks"
      unfolding block_pack_qkv [OF assms i]
      using length_block [OF assms(1) i] length_block [OF assms(2) i] by simp
  qed
  also have "\<dots> = ks" using assms(2) by (rule blocks_id)
  finally show ?thesis .
qed

lemma unpack_v_pack:
  assumes "length qs = g * (s * len)" "length ks = g * len" "length vs = g * len"
  shows "unpack_v g s len (pack_qkv g s len qs ks vs) = vs"
proof -
  have "unpack_v g s len (pack_qkv g s len qs ks vs) = concat (map (\<lambda>i. block len i vs) [0..<g])"
    unfolding unpack_v_def map_blocks_def
  proof (rule concat_map_upt_cong)
    fix i assume i: "i < g"
    show "take len (drop ((s + 1) * len) (block ((s + 2) * len) i (pack_qkv g s len qs ks vs))) =
        block len i vs"
      unfolding block_pack_qkv [OF assms i]
      using length_block [OF assms(1) i] length_block [OF assms(2) i] length_block [OF assms(3) i]
      by simp
  qed
  also have "\<dots> = vs" using assms(3) by (rule blocks_id)
  finally show ?thesis .
qed

text \<open>The two concatenations of \<open>torch.cat((query, key, value), dim=1)\<close>.\<close>

lemma cat_pack_qkv:
  assumes "length qs = g * (s * len)" "length ks = g * len" "length vs = g * len"
  shows "concat (map (\<lambda>i. block ((s + 1) * len) i
             (concat (map (\<lambda>j. block (s * len) j qs @ block len j ks) [0..<g])) @
           block len i vs) [0..<g]) = pack_qkv g s len qs ks vs"
  unfolding pack_qkv_def
proof (rule concat_map_upt_cong)
  fix i assume i: "i < g"
  have l: "\<And>j. j < g \<Longrightarrow> length (block (s * len) j qs @ block len j ks) = (s + 1) * len"
    using length_block [OF assms(1)] length_block [OF assms(2)] by simp
  have "block ((s + 1) * len) i (concat (map (\<lambda>j. block (s * len) j qs @ block len j ks) [0..<g])) =
      block (s * len) i qs @ block len i ks"
    by (rule block_concat [where f = "\<lambda>j. block (s * len) j qs @ block len j ks", OF l i])
  then show "block ((s + 1) * len) i
          (concat (map (\<lambda>j. block (s * len) j qs @ block len j ks) [0..<g])) @ block len i vs =
        block (s * len) i qs @ block len i ks @ block len i vs" by simp
qed

section \<open>falcon\_40b.py: the two directions in closed form\<close>

lemma qkv_converter_hf_to_cs_weight:
  fixes xs :: "'a list"
  assumes sizes: "qkv_sizes cs = Inr (hs, g, s)" and heads: "model_size cs ''num_heads'' = Inr (g * s)"
    and ev: "even hs" and pos: "0 < g" "0 < s" "0 < cols"
    and key: "endswith new_key ''.weight''"
    and old: "map_of old_sd old_key = Some \<lparr>shape = [hs * (g * 2 + g * s), cols], elements = xs\<rparr>"
    and len: "length xs = g * ((s + 2) * (hs * cols))"
  shows "qkv_converter_hf_to_cs old_key new_key old_sd new_sd cs =
         Inr (AList.update (proj_key ''v'' new_key)
                \<lparr>shape = [g * hs, cols], elements = unpack_v g s (hs * cols) xs\<rparr>
             (AList.update (proj_key ''k'' new_key)
                \<lparr>shape = [g * hs, cols],
                 elements = map_blocks g (hs * cols) (rotate_rows hs cols) (unpack_k g s (hs * cols) xs)\<rparr>
             (AList.update new_key
                \<lparr>shape = [g * s * hs, cols],
                 elements = map_blocks (g * s) (hs * cols) (rotate_rows hs cols)
                              (unpack_q g s (hs * cols) xs)\<rparr> new_sd)))"
proof -
  let ?c = "hs * cols"
  let ?Q = "unpack_q g s ?c xs" and ?K = "unpack_k g s ?c xs" and ?V = "unpack_v g s ?c xs"
  let ?Q' = "map_blocks (g * s) ?c (rotate_rows hs cols) ?Q"
  let ?K' = "map_blocks g ?c (rotate_rows hs cols) ?K"
  have lq: "length ?Q = g * s * ?c" using length_unpack_q [OF len] by (simp add: mult.assoc)
  have lk: "length ?K = g * 1 * ?c" using length_unpack_k [OF len] by simp
  have lv: "length ?V = g * ?c" using len by (rule length_unpack_v)
  have lq': "length ?Q' = g * s * ?c" using ev _ lq by (rule length_rotate_blocks) simp
  have lk': "length ?K' = g * ?c" using length_rotate_blocks [of hs hs ?K g cols] ev lk by simp
  have nb: "\<not> endswith new_key ''.bias''" using key by (rule endswith_weight_not_bias)
  have r0: "reshape [int g, int (s + 2), - 1, int cols]
        \<lparr>shape = [hs * (g * 2 + g * s), cols], elements = xs\<rparr> =
      Inr \<lparr>shape = [g, s + 2, hs, cols], elements = xs\<rparr>"
  proof -
    have p: "0 < prod_list [g, s + 2] * prod_list [cols]" using pos by simp
    have l: "length xs = prod_list [g, s + 2] * prod_list [cols] * hs"
      using len by (simp add: algebra_simps)
    show ?thesis
      using reshape_infer [OF p l, where sh = "[hs * (g * 2 + g * s), cols]"] by simp
  qed
  have sq: "slice_dim 1 0 (Some s) \<lparr>shape = [g, s + 2, hs, cols], elements = xs\<rparr> =
      \<lparr>shape = [g, s, hs, cols], elements = ?Q\<rparr>"
    using slice_dim_1 [of 0 "Some s" g "s + 2" "[hs, cols]" xs] by (simp add: unpack_q_def)
  have sk: "slice_dim 1 s (Some (s + 1)) \<lparr>shape = [g, s + 2, hs, cols], elements = xs\<rparr> =
      \<lparr>shape = [g, 1, hs, cols], elements = ?K\<rparr>"
    using slice_dim_1 [of s "Some (s + 1)" g "s + 2" "[hs, cols]" xs] by (simp add: unpack_k_def)
  have sv: "slice_dim 1 (s + 1) (Some (s + 2)) \<lparr>shape = [g, s + 2, hs, cols], elements = xs\<rparr> =
      \<lparr>shape = [g, 1, hs, cols], elements = ?V\<rparr>"
    using slice_dim_1 [of "s + 1" "Some (s + 2)" g "s + 2" "[hs, cols]" xs] by (simp add: unpack_v_def)
  have iq: "falcon_interleave_helper hs \<lparr>shape = [g, s, hs, cols], elements = ?Q\<rparr> =
      Inr \<lparr>shape = [g, s, hs, cols], elements = ?Q'\<rparr>"
    using ev _ pos lq by (rule falcon_interleave_helper_weight) simp
  have ik: "falcon_interleave_helper hs \<lparr>shape = [g, 1, hs, cols], elements = ?K\<rparr> =
      Inr \<lparr>shape = [g, 1, hs, cols], elements = ?K'\<rparr>"
    using falcon_interleave_helper_weight [of hs hs g 1 cols ?K] ev pos lk by simp
  have rq: "reshape [- 1, int cols] \<lparr>shape = [g, s, hs, cols], elements = ?Q'\<rparr> =
      Inr \<lparr>shape = [g * s * hs, cols], elements = ?Q'\<rparr>"
    using reshape_infer [of "[]" "[cols]" ?Q' "g * s * hs" "[g, s, hs, cols]"] pos lq'
    by (simp add: mult_ac)
  have rv: "reshape [- 1, int cols] \<lparr>shape = [g, 1, hs, cols], elements = ?V\<rparr> =
      Inr \<lparr>shape = [g * hs, cols], elements = ?V\<rparr>"
    using reshape_infer [of "[]" "[cols]" ?V "g * hs" "[g, 1, hs, cols]"] pos lv
    by (simp add: mult_ac)
  have rk: "reshape [- 1, int cols] \<lparr>shape = [g, 1, hs, cols], elements = ?K'\<rparr> =
      Inr \<lparr>shape = [g * hs, cols], elements = ?K'\<rparr>"
    using reshape_infer [of "[]" "[cols]" ?K' "g * hs" "[g, 1, hs, cols]"] pos lk'
    by (simp add: mult_ac)
  show ?thesis
    using r0 sq sk sv iq ik rq rv rk
    by (simp add: qkv_converter_hf_to_cs_def sizes heads key nb old)
qed

lemma qkv_converter_hf_to_cs_bias:
  fixes xs :: "'a list"
  assumes sizes: "qkv_sizes cs = Inr (hs, g, s)" and heads: "model_size cs ''num_heads'' = Inr (g * s)"
    and ev: "even hs" and pos: "0 < g" "0 < s"
    and key: "endswith new_key ''.bias''"
    and old: "map_of old_sd old_key = Some \<lparr>shape = [hs * (g * 2 + g * s)], elements = xs\<rparr>"
    and len: "length xs = g * ((s + 2) * hs)"
  shows "qkv_converter_hf_to_cs old_key new_key old_sd new_sd cs =
         Inr (AList.update (proj_key ''v'' new_key)
                \<lparr>shape = [g * hs], elements = unpack_v g s hs xs\<rparr>
             (AList.update (proj_key ''k'' new_key)
                \<lparr>shape = [g * hs],
                 elements = map_blocks g hs (rotate_rows hs 1) (unpack_k g s hs xs)\<rparr>
             (AList.update new_key
                \<lparr>shape = [g * s * hs],
                 elements = map_blocks (g * s) hs (rotate_rows hs 1) (unpack_q g s hs xs)\<rparr> new_sd)))"
proof -
  let ?Q = "unpack_q g s hs xs" and ?K = "unpack_k g s hs xs" and ?V = "unpack_v g s hs xs"
  let ?Q' = "map_blocks (g * s) hs (rotate_rows hs 1) ?Q"
  let ?K' = "map_blocks g hs (rotate_rows hs 1) ?K"
  have lq: "length ?Q = g * s * hs" using length_unpack_q [OF len] by (simp add: mult.assoc)
  have lk: "length ?K = g * 1 * hs" using length_unpack_k [OF len] by simp
  have lv: "length ?V = g * hs" using len by (rule length_unpack_v)
  have lq': "length ?Q' = g * s * hs" using length_rotate_blocks [of hs hs ?Q "g * s" 1] ev lq by simp
  have lk': "length ?K' = g * hs" using length_rotate_blocks [of hs hs ?K g 1] ev lk by simp
  have r0: "reshape [int g, int (s + 2), - 1] \<lparr>shape = [hs * (g * 2 + g * s)], elements = xs\<rparr> =
      Inr \<lparr>shape = [g, s + 2, hs], elements = xs\<rparr>"
  proof -
    have p: "0 < prod_list [g, s + 2] * prod_list []" using pos by simp
    have l: "length xs = prod_list [g, s + 2] * prod_list [] * hs"
      using len by (simp add: algebra_simps)
    show ?thesis
      using reshape_infer [OF p l, where sh = "[hs * (g * 2 + g * s)]"] by simp
  qed
  have sq: "slice_dim 1 0 (Some s) \<lparr>shape = [g, s + 2, hs], elements = xs\<rparr> =
      \<lparr>shape = [g, s, hs], elements = ?Q\<rparr>"
    using slice_dim_1 [of 0 "Some s" g "s + 2" "[hs]" xs] by (simp add: unpack_q_def)
  have sk: "slice_dim 1 s (Some (s + 1)) \<lparr>shape = [g, s + 2, hs], elements = xs\<rparr> =
      \<lparr>shape = [g, 1, hs], elements = ?K\<rparr>"
    using slice_dim_1 [of s "Some (s + 1)" g "s + 2" "[hs]" xs] by (simp add: unpack_k_def)
  have sv: "slice_dim 1 (s + 1) (Some (s + 2)) \<lparr>shape = [g, s + 2, hs], elements = xs\<rparr> =
      \<lparr>shape = [g, 1, hs], elements = ?V\<rparr>"
    using slice_dim_1 [of "s + 1" "Some (s + 2)" g "s + 2" "[hs]" xs] by (simp add: unpack_v_def)
  have iq: "falcon_interleave_helper hs \<lparr>shape = [g, s, hs], elements = ?Q\<rparr> =
      Inr \<lparr>shape = [g, s, hs], elements = ?Q'\<rparr>"
    using ev _ pos lq by (rule falcon_interleave_helper_bias) simp
  have ik: "falcon_interleave_helper hs \<lparr>shape = [g, 1, hs], elements = ?K\<rparr> =
      Inr \<lparr>shape = [g, 1, hs], elements = ?K'\<rparr>"
    using falcon_interleave_helper_bias [of hs hs g 1 ?K] ev pos lk by simp
  have rq: "reshape [- 1] \<lparr>shape = [g, s, hs], elements = ?Q'\<rparr> =
      Inr \<lparr>shape = [g * s * hs], elements = ?Q'\<rparr>"
    using reshape_infer [of "[]" "[]" ?Q' "g * s * hs" "[g, s, hs]"] lq' by simp
  have rv: "reshape [- 1] \<lparr>shape = [g, 1, hs], elements = ?V\<rparr> =
      Inr \<lparr>shape = [g * hs], elements = ?V\<rparr>"
    using reshape_infer [of "[]" "[]" ?V "g * hs" "[g, 1, hs]"] lv by simp
  have rk: "reshape [- 1] \<lparr>shape = [g, 1, hs], elements = ?K'\<rparr> =
      Inr \<lparr>shape = [g * hs], elements = ?K'\<rparr>"
    using reshape_infer [of "[]" "[]" ?K' "g * hs" "[g, 1, hs]"] lk' by simp
  show ?thesis
    using r0 sq sk sv iq ik rq rv rk
    by (simp add: qkv_converter_hf_to_cs_def sizes heads key old)
qed

lemma cat_qkv:
  fixes qs :: "'a list"
  assumes "length qs = g * (s * prod_list rest)" "length ks = g * prod_list rest"
    "length vs = g * prod_list rest"
  shows "cat 1 [\<lparr>shape = g # s # rest, elements = qs\<rparr>, \<lparr>shape = g # 1 # rest, elements = ks\<rparr>,
                \<lparr>shape = g # 1 # rest, elements = vs\<rparr>] =
         Inr \<lparr>shape = g # (s + 2) # rest, elements = pack_qkv g s (prod_list rest) qs ks vs\<rparr>"
  using cat2_1 [of g s rest qs 1 ks]
    cat2_1 [of g "s + 1" rest
      "concat (map (\<lambda>i. block (s * prod_list rest) i qs @ block (1 * prod_list rest) i ks) [0..<g])" 1 vs]
    cat_pack_qkv [OF assms]
  by simp

lemma qkv_converter_cs_to_hf_weight:
  fixes qs :: "'a list"
  assumes sizes: "qkv_sizes cs = Inr (hs, g, s)"
    and ev: "even hs" and pos: "0 < g" "0 < s" "0 < cols"
    and key: "endswith new_key ''.weight''"
    and q: "map_of old_sd old_key = Some \<lparr>shape = [mq, cols], elements = qs\<rparr>"
    and k: "map_of old_sd (proj_key ''k'' old_key) = Some \<lparr>shape = [mk, cols], elements = ks\<rparr>"
    and v: "map_of old_sd (proj_key ''v'' old_key) = Some \<lparr>shape = [mv, cols], elements = vs\<rparr>"
    and lq: "length qs = g * s * (hs * cols)" and lk: "length ks = g * (hs * cols)"
    and lv: "length vs = g * (hs * cols)"
  shows "qkv_converter_cs_to_hf old_key new_key old_sd new_sd cs =
         Inr (AList.update new_key
                \<lparr>shape = [hs * (g * 2 + g * s), cols],
                 elements = pack_qkv g s (hs * cols)
                   (map_blocks (g * s) (hs * cols) (unrotate_rows hs cols) qs)
                   (map_blocks g (hs * cols) (unrotate_rows hs cols) ks) vs\<rparr> new_sd)"
proof -
  let ?c = "hs * cols"
  let ?Q = "map_blocks (g * s) ?c (unrotate_rows hs cols) qs"
  let ?K = "map_blocks g ?c (unrotate_rows hs cols) ks"
  let ?P = "pack_qkv g s ?c ?Q ?K vs"
  have nb: "\<not> endswith new_key ''.bias''" using key by (rule endswith_weight_not_bias)
  have lQ: "length ?Q = g * (s * ?c)"
    using length_unrotate_blocks [of hs hs qs "g * s" cols] ev lq by (simp add: mult.assoc)
  have lK: "length ?K = g * ?c" using length_unrotate_blocks [of hs hs ks g cols] ev lk by simp
  have lP: "length ?P = g * ((s + 2) * ?c)" using lQ lK lv by (rule length_pack_qkv)
  have rq: "falcon_reverse_interleave_helper hs \<lparr>shape = [mq, cols], elements = qs\<rparr> s g =
      Inr \<lparr>shape = [g, s, hs, cols], elements = ?Q\<rparr>"
    using ev _ pos lq by (rule falcon_reverse_interleave_helper_weight) simp
  have rk: "falcon_reverse_interleave_helper hs \<lparr>shape = [mk, cols], elements = ks\<rparr> 1 g =
      Inr \<lparr>shape = [g, 1, hs, cols], elements = ?K\<rparr>"
    using falcon_reverse_interleave_helper_weight [of hs hs g 1 cols ks mk] ev pos lk by simp
  have rv: "reshape [int g, 1, - 1, int cols] \<lparr>shape = [mv, cols], elements = vs\<rparr> =
      Inr \<lparr>shape = [g, 1, hs, cols], elements = vs\<rparr>"
    using reshape_infer [of "[g, 1]" "[cols]" vs hs "[mv, cols]"] pos lv by (simp add: mult_ac)
  have ct: "cat 1 [\<lparr>shape = [g, s, hs, cols], elements = ?Q\<rparr>, \<lparr>shape = [g, 1, hs, cols], elements = ?K\<rparr>,
                   \<lparr>shape = [g, 1, hs, cols], elements = vs\<rparr>] =
      Inr \<lparr>shape = [g, s + 2, hs, cols], elements = ?P\<rparr>"
    using cat_qkv [of ?Q g s "[hs, cols]" ?K vs] lQ lK lv by simp
  have rp: "reshape [- 1, int cols] \<lparr>shape = [g, s + 2, hs, cols], elements = ?P\<rparr> =
      Inr \<lparr>shape = [hs * (g * 2 + g * s), cols], elements = ?P\<rparr>"
  proof -
    have p: "0 < prod_list [] * prod_list [cols]" using pos by simp
    have l: "length ?P = prod_list [] * prod_list [cols] * (hs * (g * 2 + g * s))"
      using lP by (simp add: algebra_simps)
    show ?thesis
      using reshape_infer [OF p l, where sh = "[g, s + 2, hs, cols]"] by simp
  qed
  show ?thesis
    using rq rk rv ct rp
    by (simp add: qkv_converter_cs_to_hf_def sizes key nb q k v)
qed

lemma qkv_converter_cs_to_hf_bias:
  fixes qs :: "'a list"
  assumes sizes: "qkv_sizes cs = Inr (hs, g, s)"
    and ev: "even hs" and pos: "0 < g" "0 < s"
    and key: "endswith new_key ''.bias''"
    and q: "map_of old_sd old_key = Some \<lparr>shape = [mq], elements = qs\<rparr>"
    and k: "map_of old_sd (proj_key ''k'' old_key) = Some \<lparr>shape = [mk], elements = ks\<rparr>"
    and v: "map_of old_sd (proj_key ''v'' old_key) = Some \<lparr>shape = [mv], elements = vs\<rparr>"
    and lq: "length qs = g * s * hs" and lk: "length ks = g * hs"
    and lv: "length vs = g * hs"
  shows "qkv_converter_cs_to_hf old_key new_key old_sd new_sd cs =
         Inr (AList.update new_key
                \<lparr>shape = [hs * (g * 2 + g * s)],
                 elements = pack_qkv g s hs
                   (map_blocks (g * s) hs (unrotate_rows hs 1) qs)
                   (map_blocks g hs (unrotate_rows hs 1) ks) vs\<rparr> new_sd)"
proof -
  let ?Q = "map_blocks (g * s) hs (unrotate_rows hs 1) qs"
  let ?K = "map_blocks g hs (unrotate_rows hs 1) ks"
  let ?P = "pack_qkv g s hs ?Q ?K vs"
  have lQ: "length ?Q = g * (s * hs)"
    using length_unrotate_blocks [of hs hs qs "g * s" 1] ev lq by (simp add: mult.assoc)
  have lK: "length ?K = g * hs" using length_unrotate_blocks [of hs hs ks g 1] ev lk by simp
  have lP: "length ?P = g * ((s + 2) * hs)" using lQ lK lv by (rule length_pack_qkv)
  have rq: "falcon_reverse_interleave_helper hs \<lparr>shape = [mq], elements = qs\<rparr> s g =
      Inr \<lparr>shape = [g, s, hs], elements = ?Q\<rparr>"
    using ev _ pos lq by (rule falcon_reverse_interleave_helper_bias) simp
  have rk: "falcon_reverse_interleave_helper hs \<lparr>shape = [mk], elements = ks\<rparr> 1 g =
      Inr \<lparr>shape = [g, 1, hs], elements = ?K\<rparr>"
    using falcon_reverse_interleave_helper_bias [of hs hs g 1 ks mk] ev pos lk by simp
  have rv: "reshape [int g, 1, - 1] \<lparr>shape = [mv], elements = vs\<rparr> =
      Inr \<lparr>shape = [g, 1, hs], elements = vs\<rparr>"
    using reshape_infer [of "[g, 1]" "[]" vs hs "[mv]"] pos lv by (simp add: mult_ac)
  have ct: "cat 1 [\<lparr>shape = [g, s, hs], elements = ?Q\<rparr>, \<lparr>shape = [g, 1, hs], elements = ?K\<rparr>,
                   \<lparr>shape = [g, 1, hs], elements = vs\<rparr>] =
      Inr \<lparr>shape = [g, s + 2, hs], elements = ?P\<rparr>"
    using cat_qkv [of ?Q g s "[hs]" ?K vs] lQ lK lv by simp
  have rp: "reshape [- 1] \<lparr>shape = [g, s + 2, hs], elements = ?P\<rparr> =
      Inr \<lparr>shape = [hs * (g * 2 + g * s)], elements = ?P\<rparr>"
  proof -
    have p: "0 < prod_list [] * prod_list ([] :: nat list)" by simp
    have l: "length ?P = prod_list [] * prod_list [] * (hs * (g * 2 + g * s))"
      using lP by (simp add: algebra_simps)
    show ?thesis
      using reshape_infer [OF p l, where sh = "[g, s + 2, hs]"] by simp
  qed
  show ?thesis
    using rq rk rv ct rp
    by (simp add: qkv_converter_cs_to_hf_def sizes key q k v)
qed

section \<open>falcon\_40b.py: splitting and merging\<close>

lemma lookup_three:
  assumes "distinct [q, k, v]"
  shows "map_of (AList.update v c (AList.update k b (AList.update q a sd))) q = Some a"
    and "map_of (AList.update v c (AList.update k b (AList.update q a sd))) k = Some b"
    and "map_of (AList.update v c (AList.update k b (AList.update q a sd))) v = Some c"
  using assms by (auto simp add: update_conv')

lemma split_merge_weight:
  fixes xs :: "'a list"
  assumes sizes: "qkv_sizes cs = Inr (hs, g, s)" and heads: "model_size cs ''num_heads'' = Inr (g * s)"
    and ev: "even hs" and pos: "0 < g" "0 < s" "0 < cols"
    and keys: "distinct [q_key, proj_key ''k'' q_key, proj_key ''v'' q_key]"
    and qw: "endswith q_key ''.weight''" and hw: "endswith hf_key ''.weight''"
    and old: "map_of hf_sd hf_key = Some \<lparr>shape = [hs * (g * 2 + g * s), cols], elements = xs\<rparr>"
    and len: "length xs = hs * (g * 2 + g * s) * cols"
  shows "\<exists>cs_sd. qkv_converter_hf_to_cs hf_key q_key hf_sd sd_a cs = Inr cs_sd \<and>
           qkv_converter_cs_to_hf q_key hf_key cs_sd sd_b cs =
             Inr (AList.update hf_key \<lparr>shape = [hs * (g * 2 + g * s), cols], elements = xs\<rparr> sd_b)"
proof -
  let ?c = "hs * cols"
  let ?Q = "unpack_q g s ?c xs" and ?K = "unpack_k g s ?c xs" and ?V = "unpack_v g s ?c xs"
  let ?Q' = "map_blocks (g * s) ?c (rotate_rows hs cols) ?Q"
  let ?K' = "map_blocks g ?c (rotate_rows hs cols) ?K"
  let ?sd = "AList.update (proj_key ''v'' q_key) \<lparr>shape = [g * hs, cols], elements = ?V\<rparr>
             (AList.update (proj_key ''k'' q_key) \<lparr>shape = [g * hs, cols], elements = ?K'\<rparr>
             (AList.update q_key \<lparr>shape = [g * s * hs, cols], elements = ?Q'\<rparr> sd_a))"
  have len': "length xs = g * ((s + 2) * ?c)" using len by (simp add: algebra_simps)
  have lq: "length ?Q = g * s * ?c" using length_unpack_q [OF len'] by (simp add: mult.assoc)
  have lk: "length ?K = g * ?c" using len' by (rule length_unpack_k)
  have lv: "length ?V = g * ?c" using len' by (rule length_unpack_v)
  have lq': "length ?Q' = g * s * ?c" using ev _ lq by (rule length_rotate_blocks) simp
  have lk': "length ?K' = g * ?c" using ev _ lk by (rule length_rotate_blocks) simp
  have 1: "qkv_converter_hf_to_cs hf_key q_key hf_sd sd_a cs = Inr ?sd"
    using sizes heads ev pos qw old len' by (rule qkv_converter_hf_to_cs_weight)
  have uq: "map_blocks (g * s) ?c (unrotate_rows hs cols) ?Q' = ?Q"
    using ev _ lq by (rule unrotate_rotate_blocks) simp
  have uk: "map_blocks g ?c (unrotate_rows hs cols) ?K' = ?K"
    using ev _ lk by (rule unrotate_rotate_blocks) simp
  have "qkv_converter_cs_to_hf q_key hf_key ?sd sd_b cs =
      Inr (AList.update hf_key
             \<lparr>shape = [hs * (g * 2 + g * s), cols],
              elements = pack_qkv g s ?c (map_blocks (g * s) ?c (unrotate_rows hs cols) ?Q')
                (map_blocks g ?c (unrotate_rows hs cols) ?K') ?V\<rparr> sd_b)"
    using sizes ev pos hw lookup_three [OF keys] lq' lk' lv by (rule qkv_converter_cs_to_hf_weight)
  then have 2: "qkv_converter_cs_to_hf q_key hf_key ?sd sd_b cs =
      Inr (AList.update hf_key \<lparr>shape = [hs * (g * 2 + g * s), cols], elements = xs\<rparr> sd_b)"
    unfolding uq uk pack_unpack [OF len'] .
  show ?thesis using 1 2 by blast
qed

lemma merge_split_weight:
  fixes qs :: "'a list"
  assumes sizes: "qkv_sizes cs = Inr (hs, g, s)" and heads: "model_size cs ''num_heads'' = Inr (g * s)"
    and ev: "even hs" and pos: "0 < g" "0 < s" "0 < cols"
    and keys: "distinct [q_key, proj_key ''k'' q_key, proj_key ''v'' q_key]"
    and qw: "endswith q_key ''.weight''" and hw: "endswith hf_key ''.weight''"
    and q: "map_of cs_sd q_key = Some \<lparr>shape = [g * s * hs, cols], elements = qs\<rparr>"
    and k: "map_of cs_sd (proj_key ''k'' q_key) = Some \<lparr>shape = [g * hs, cols], elements = ks\<rparr>"
    and v: "map_of cs_sd (proj_key ''v'' q_key) = Some \<lparr>shape = [g * hs, cols], elements = vs\<rparr>"
    and lq: "length qs = g * s * hs * cols" and lk: "length ks = g * hs * cols"
    and lv: "length vs = g * hs * cols"
  shows "\<exists>hf_sd. qkv_converter_cs_to_hf q_key hf_key cs_sd sd_a cs = Inr hf_sd \<and>
           (\<exists>out. qkv_converter_hf_to_cs hf_key q_key hf_sd sd_b cs = Inr out \<and>
              map_of out q_key = Some \<lparr>shape = [g * s * hs, cols], elements = qs\<rparr> \<and>
              map_of out (proj_key ''k'' q_key) = Some \<lparr>shape = [g * hs, cols], elements = ks\<rparr> \<and>
              map_of out (proj_key ''v'' q_key) = Some \<lparr>shape = [g * hs, cols], elements = vs\<rparr>)"
proof -
  let ?c = "hs * cols"
  let ?Q = "map_blocks (g * s) ?c (unrotate_rows hs cols) qs"
  let ?K = "map_blocks g ?c (unrotate_rows hs cols) ks"
  let ?P = "pack_qkv g s ?c ?Q ?K vs"
  let ?hf = "AList.update hf_key \<lparr>shape = [hs * (g * 2 + g * s), cols], elements = ?P\<rparr> sd_a"
  have lq': "length qs = g * s * ?c" using lq by (simp add: mult.assoc)
  have lk': "length ks = g * ?c" using lk by (simp add: mult.assoc)
  have lv': "length vs = g * ?c" using lv by (simp add: mult.assoc)
  have lQ: "length ?Q = g * (s * ?c)"
    using length_unrotate_blocks [of hs hs qs "g * s" cols] ev lq' by (simp add: mult.assoc)
  have lK: "length ?K = g * ?c" using ev _ lk' by (rule length_unrotate_blocks) simp
  have lP: "length ?P = g * ((s + 2) * ?c)" using lQ lK lv' by (rule length_pack_qkv)
  have 1: "qkv_converter_cs_to_hf q_key hf_key cs_sd sd_a cs = Inr ?hf"
    using sizes ev pos hw q k v lq' lk' lv' by (rule qkv_converter_cs_to_hf_weight)
  have m: "map_of ?hf hf_key = Some \<lparr>shape = [hs * (g * 2 + g * s), cols], elements = ?P\<rparr>"
    by (simp add: update_conv')
  let ?out = "AList.update (proj_key ''v'' q_key)
                \<lparr>shape = [g * hs, cols], elements = unpack_v g s ?c ?P\<rparr>
             (AList.update (proj_key ''k'' q_key)
                \<lparr>shape = [g * hs, cols],
                 elements = map_blocks g ?c (rotate_rows hs cols) (unpack_k g s ?c ?P)\<rparr>
             (AList.update q_key
                \<lparr>shape = [g * s * hs, cols],
                 elements = map_blocks (g * s) ?c (rotate_rows hs cols) (unpack_q g s ?c ?P)\<rparr> sd_b))"
  have 2: "qkv_converter_hf_to_cs hf_key q_key ?hf sd_b cs = Inr ?out"
    using sizes heads ev pos qw m lP by (rule qkv_converter_hf_to_cs_weight)
  have uq: "unpack_q g s ?c ?P = ?Q" using lQ lK lv' by (rule unpack_q_pack)
  have uk: "unpack_k g s ?c ?P = ?K" using lQ lK lv' by (rule unpack_k_pack)
  have uv: "unpack_v g s ?c ?P = vs" using lQ lK lv' by (rule unpack_v_pack)
  have rq: "map_blocks (g * s) ?c (rotate_rows hs cols) ?Q = qs"
    using ev _ lq' by (rule rotate_unrotate_blocks) simp
  have rk: "map_blocks g ?c (rotate_rows hs cols) ?K = ks"
    using ev _ lk' by (rule rotate_unrotate_blocks) simp
  have 3: "map_of ?out q_key = Some \<lparr>shape = [g * s * hs, cols], elements = qs\<rparr>"
    "map_of ?out (proj_key ''k'' q_key) = Some \<lparr>shape = [g * hs, cols], elements = ks\<rparr>"
    "map_of ?out (proj_key ''v'' q_key) = Some \<lparr>shape = [g * hs, cols], elements = vs\<rparr>"
    unfolding lookup_three [OF keys] uq uk uv rq rk by (rule refl)+
  show ?thesis using 1 2 3 by blast
qed

lemma split_merge_bias:
  fixes xs :: "'a list"
  assumes sizes: "qkv_sizes cs = Inr (hs, g, s)" and heads: "model_size cs ''num_heads'' = Inr (g * s)"
    and ev: "even hs" and pos: "0 < g" "0 < s"
    and keys: "distinct [q_key, proj_key ''k'' q_key, proj_key ''v'' q_key]"
    and qw: "endswith q_key ''.bias''" and hw: "endswith hf_key ''.bias''"
    and old: "map_of hf_sd hf_key = Some \<lparr>shape = [hs * (g * 2 + g * s)], elements = xs\<rparr>"
    and len: "length xs = hs * (g * 2 + g * s)"
  shows "\<exists>cs_sd. qkv_converter_hf_to_cs hf_key q_key hf_sd sd_a cs = Inr cs_sd \<and>
           qkv_converter_cs_to_hf q_key hf_key cs_sd sd_b cs =
             Inr (AList.update hf_key \<lparr>shape = [hs * (g * 2 + g * s)], elements = xs\<rparr> sd_b)"
proof -
  let ?Q = "unpack_q g s hs xs" and ?K = "unpack_k g s hs xs" and ?V = "unpack_v g s hs xs"
  let ?Q' = "map_blocks (g * s) hs (rotate_rows hs 1) ?Q"
  let ?K' = "map_blocks g hs (rotate_rows hs 1) ?K"
  let ?sd = "AList.update (proj_key ''v'' q_key) \<lparr>shape = [g * hs], elements = ?V\<rparr>
             (AList.update (proj_key ''k'' q_key) \<lparr>shape = [g * hs], elements = ?K'\<rparr>
             (AList.update q_key \<lparr>shape = [g * s * hs], elements = ?Q'\<rparr> sd_a))"
  have len': "length xs = g * ((s + 2) * hs)" using len by (simp add: algebra_simps)
  have lq: "length ?Q = g * s * hs" using length_unpack_q [OF len'] by (simp add: mult.assoc)
  have lk: "length ?K = g * hs" using len' by (rule length_unpack_k)
  have lv: "length ?V = g * hs" using len' by (rule length_unpack_v)
  have lq': "length ?Q' = g * s * hs" using length_rotate_blocks [of hs hs ?Q "g * s" 1] ev lq by simp
  have lk': "length ?K' = g * hs" using length_rotate_blocks [of hs hs ?K g 1] ev lk by simp
  have 1: "qkv_converter_hf_to_cs hf_key q_key hf_sd sd_a cs = Inr ?sd"
    using sizes heads ev pos qw old len' by (rule qkv_converter_hf_to_cs_bias)
  have uq: "map_blocks (g * s) hs (unrotate_rows hs 1) ?Q' = ?Q"
    using unrotate_rotate_blocks [of hs hs ?Q "g * s" 1] ev lq by simp
  have uk: "map_blocks g hs (unrotate_rows hs 1) ?K' = ?K"
    using unrotate_rotate_blocks [of hs hs ?K g 1] ev lk by simp
  have "qkv_converter_cs_to_hf q_key hf_key ?sd sd_b cs =
      Inr (AList.update hf_key
             \<lparr>shape = [hs * (g * 2 + g * s)],
              elements = pack_qkv g s hs (map_blocks (g * s) hs (unrotate_rows hs 1) ?Q')
                (map_blocks g hs (unrotate_rows hs 1) ?K') ?V\<rparr> sd_b)"
    using sizes ev pos hw lookup_three [OF keys] lq' lk' lv by (rule qkv_converter_cs_to_hf_bias)
  then have 2: "qkv_converter_cs_to_hf q_key hf_key ?sd sd_b cs =
      Inr (AList.update hf_key \<lparr>shape = [hs * (g * 2 + g * s)], elements = xs\<rparr> sd_b)"
    unfolding uq uk pack_unpack [OF len'] .
  show ?thesis using 1 2 by blast
qed

lemma merge_split_bias:
  fixes qs :: "'a list"
  assumes sizes: "qkv_sizes cs = Inr (hs, g, s)" and heads: "model_size cs ''num_heads'' = Inr (g * s)"
    and ev: "even hs" and pos: "0 < g" "0 < s"
    and keys: "distinct [q_key, proj_key ''k'' q_key, proj_key ''v'' q_key]"
    and qw: "endswith q_key ''.bias''" and hw: "endswith hf_key ''.bias''"
    and q: "map_of cs_sd q_key = Some \<lparr>shape = [g * s * hs], elements = qs\<rparr>"
    and k: "map_of cs_sd (proj_key ''k'' q_key) = Some \<lparr>shape = [g * hs], elements = ks\<rparr>"
    and v: "map_of cs_sd (proj_key ''v'' q_key) = Some \<lparr>shape = [g * hs], elements = vs\<rparr>"
    and lq: "length qs = g * s * hs" and lk: "length ks = g * hs"
    and lv: "length vs = g * hs"
  shows "\<exists>hf_sd. qkv_converter_cs_to_hf q_key hf_key cs_sd sd_a cs = Inr hf_sd \<and>
           (\<exists>out. qkv_converter_hf_to_cs hf_key q_key hf_sd sd_b cs = Inr out \<and>
              map_of out q_key = Some \<lparr>shape = [g * s * hs], elements = qs\<rparr> \<and>
              map_of out (proj_key ''k'' q_key) = Some \<lparr>shape = [g * hs], elements = ks\<rparr> \<and>
              map_of out (proj_key ''v'' q_key) = Some \<lparr>shape = [g * hs], elements = vs\<rparr>)"
proof -
  let ?Q = "map_blocks (g * s) hs (unrotate_rows hs 1) qs"
  let ?K = "map_blocks g hs (unrotate_rows hs 1) ks"
  let ?P = "pack_qkv g s hs ?Q ?K vs"
  let ?hf = "AList.update hf_key \<lparr>shape = [hs * (g * 2 + g * s)], elements = ?P\<rparr> sd_a"
  have lQ: "length ?Q = g * (s * hs)"
    using length_unrotate_blocks [of hs hs qs "g * s" 1] ev lq by (simp add: mult.assoc)
  have lK: "length ?K = g * hs" using length_unrotate_blocks [of hs hs ks g 1] ev lk by simp
  have lP: "length ?P = g * ((s + 2) * hs)" using lQ lK lv by (rule length_pack_qkv)
  have 1: "qkv_converter_cs_to_hf q_key hf_key cs_sd sd_a cs = Inr ?hf"
    using sizes ev pos hw q k v lq lk lv by (rule qkv_converter_cs_to_hf_bias)
  have m: "map_of ?hf hf_key = Some \<lparr>shape = [hs * (g * 2 + g * s)], elements = ?P\<rparr>"
    by (simp add: update_conv')
  let ?out = "AList.update (proj_key ''v'' q_key)
                \<lparr>shape = [g * hs], elements = unpack_v g s hs ?P\<rparr>
             (AList.update (proj_key ''k'' q_key)
                \<lparr>shape = [g * hs],
                 elements = map_blocks g hs (rotate_rows hs 1) (unpack_k g s hs ?P)\<rparr>
             (AList.update q_key
                \<lparr>shape = [g * s * hs],
                 elements = map_blocks (g * s) hs (rotate_rows hs 1) (unpack_q g s hs ?P)\<rparr> sd_b))"
  have 2: "qkv_converter_hf_to_cs hf_key q_key ?hf sd_b cs = Inr ?out"
    using sizes heads ev pos qw m lP by (rule qkv_converter_hf_to_cs_bias)
  have uq: "unpack_q g s hs ?P = ?Q" using lQ lK lv by (rule unpack_q_pack)
  have uk: "unpack_k g s hs ?P = ?K" using lQ lK lv by (rule unpack_k_pack)
  have uv: "unpack_v g s hs ?P = vs" using lQ lK lv by (rule unpack_v_pack)
  have rq: "map_blocks (g * s) hs (rotate_rows hs 1) ?Q = qs"
    using rotate_unrotate_blocks [of hs hs qs "g * s" 1] ev lq by simp
  have rk: "map_blocks g hs (rotate_rows hs 1) ?K = ks"
    using rotate_unrotate_blocks [of hs hs ks g 1] ev lk by simp
  have 3: "map_of ?out q_key = Some \<lparr>shape = [g * s * hs], elements = qs\<rparr>"
    "map_of ?out (proj_key ''k'' q_key) = Some \<lparr>shape = [g * hs], elements = ks\<rparr>"
    "map_of ?out (proj_key ''v'' q_key) = Some \<lparr>shape = [g * hs], elements = vs\<rparr>"
    unfolding lookup_three [OF keys] uq uk uv rq rk by (rule refl)+
  show ?thesis using 1 2 3 by blast
qed

text \<open>
  C2, for a grouping of \<open>g \<ge> 1\<close> groups of \<open>s \<ge> 1\<close> query heads (\<open>num_heads = g * s\<close>;
  \<open>s = 1\<close> is multi-head, \<open>g = 1\<close> multi-query) with an even \<open>head_size\<close>, a weight of
  \<open>cols \<ge> 1\<close> columns or a bias, and a query key from which the key and value keys
  differ. A packed tensor of \<open>head_size * (num_kv_groups * 2 + num_heads)\<close> rows is split
  by \<open>qkv_converter_hf_to_cs\<close> and merged by \<open>qkv_converter_cs_to_hf\<close> into the same
  tensor; and query, key and value tensors of \<open>num_heads * head_size\<close>,
  \<open>num_kv_groups * head_size\<close> and \<open>num_kv_groups * head_size\<close> rows are merged and split
  into the same three tensors.
\<close>

theorem qkv_round_trip:
  fixes xs qs ks vs :: "'a list"
  assumes "model_size cs ''hidden_size'' = Inr hidden"
    and "model_size cs ''num_heads'' = Inr (g * s)"
    and "model_sub_size cs ''extra_attention_params'' ''num_kv_groups'' = Inr g"
    and "1 \<le> g" and "1 \<le> s" and "hs = hidden div (g * s)" and "even hs"
    and "distinct [q_key, proj_key ''k'' q_key, proj_key ''v'' q_key]"
    and "endswith q_key ''.weight'' \<and> endswith hf_key ''.weight'' \<and> rest = [cols] \<and> 1 \<le> cols \<or>
         endswith q_key ''.bias'' \<and> endswith hf_key ''.bias'' \<and> rest = []"
  shows "(map_of hf_sd hf_key = Some \<lparr>shape = hs * (g * 2 + g * s) # rest, elements = xs\<rparr> \<and>
          length xs = hs * (g * 2 + g * s) * prod_list rest \<longrightarrow>
          (\<exists>split. qkv_converter_hf_to_cs hf_key q_key hf_sd sd_a cs = Inr split \<and>
             qkv_converter_cs_to_hf q_key hf_key split sd_b cs =
               Inr (AList.update hf_key \<lparr>shape = hs * (g * 2 + g * s) # rest, elements = xs\<rparr> sd_b))) \<and>
         (map_of cs_sd q_key = Some \<lparr>shape = g * s * hs # rest, elements = qs\<rparr> \<and>
          map_of cs_sd (proj_key ''k'' q_key) = Some \<lparr>shape = g * hs # rest, elements = ks\<rparr> \<and>
          map_of cs_sd (proj_key ''v'' q_key) = Some \<lparr>shape = g * hs # rest, elements = vs\<rparr> \<and>
          length qs = g * s * hs * prod_list rest \<and> length ks = g * hs * prod_list rest \<and>
          length vs = g * hs * prod_list rest \<longrightarrow>
          (\<exists>merged. qkv_converter_cs_to_hf q_key hf_key cs_sd sd_a cs = Inr merged \<and>
             (\<exists>out. qkv_converter_hf_to_cs hf_key q_key merged sd_b cs = Inr out \<and>
                map_of out q_key = Some \<lparr>shape = g * s * hs # rest, elements = qs\<rparr> \<and>
                map_of out (proj_key ''k'' q_key) = Some \<lparr>shape = g * hs # rest, elements = ks\<rparr> \<and>
                map_of out (proj_key ''v'' q_key) = Some \<lparr>shape = g * hs # rest, elements = vs\<rparr>)))"
proof -
  have pos: "0 < g" "0 < s" using assms(4,5) by simp_all
  have sizes: "qkv_sizes cs = Inr (hs, g, s)"
    using qkv_sizes_ok [OF assms(1,2,3)] pos assms(6) by simp
  show ?thesis using assms(9)
  proof
    assume w: "endswith q_key ''.weight'' \<and> endswith hf_key ''.weight'' \<and> rest = [cols] \<and> 1 \<le> cols"
    then have c: "0 < cols" and r: "rest = [cols]" and qw: "endswith q_key ''.weight''"
      and hw: "endswith hf_key ''.weight''" by simp_all
    show ?thesis
      unfolding r
    proof (intro conjI impI, goal_cases)
      case 1
      then show ?case
        using split_merge_weight [OF sizes assms(2,7) pos c assms(8) qw hw, of hf_sd xs sd_a sd_b]
        by simp
    next
      case 2
      then show ?case
        using merge_split_weight [OF sizes assms(2,7) pos c assms(8) qw hw, of cs_sd qs ks vs sd_a sd_b]
        by simp
    qed
  next
    assume b: "endswith q_key ''.bias'' \<and> endswith hf_key ''.bias'' \<and> rest = []"
    then have r: "rest = []" and qw: "endswith q_key ''.bias''" and hw: "endswith hf_key ''.bias''"
      by simp_all
    show ?thesis
      unfolding r
    proof (intro conjI impI, goal_cases)
      case 1
      then show ?case
        using split_merge_bias [OF sizes assms(2,7) pos assms(8) qw hw, of hf_sd xs sd_a sd_b]
        by simp
    next
      case 2
      then show ?case
        using merge_split_bias [OF sizes assms(2,7) pos assms(8) qw hw, of cs_sd qs ks vs sd_a sd_b]
        by simp
    qed
  qed
qed

lemma proj_key_example:
  "proj_key ''k'' ''h.0.proj_q_dense_layer.bias'' = ''h.0.proj_k_dense_layer.bias''"
  "proj_key ''v'' ''h.0.proj_q_dense_layer.bias'' = ''h.0.proj_v_dense_layer.bias''"
  by code_simp+

theorem qkv_round_trip_witness:
  "(\<exists>split. qkv_converter_hf_to_cs ''h.0.query_key_value.bias'' ''h.0.proj_q_dense_layer.bias''
       [(''h.0.query_key_value.bias'',
         \<lparr>shape = [16], elements = [0, 1, 2, 3, 4, 5, 6, 7, 8, 9, 10, 11, 12, 13, 14, 15 :: int]\<rparr>)] []
       (example_falcon_config 8 2 1) = Inr split \<and>
     qkv_converter_cs_to_hf ''h.0.proj_q_dense_layer.bias'' ''h.0.query_key_value.bias'' split []
       (example_falcon_config 8 2 1) =
     Inr (AList.update ''h.0.query_key_value.bias''
       \<lparr>shape = [16], elements = [0, 1, 2, 3, 4, 5, 6, 7, 8, 9, 10, 11, 12, 13, 14, 15 :: int]\<rparr> [])) \<and>
   (\<exists>merged. qkv_converter_cs_to_hf ''h.0.proj_q_dense_layer.bias'' ''h.0.query_key_value.bias''
       [(''h.0.proj_q_dense_layer.bias'', \<lparr>shape = [8], elements = [0, 1, 2, 3, 4, 5, 6, 7 :: int]\<rparr>),
        (''h.0.proj_k_dense_layer.bias'', \<lparr>shape = [4], elements = [8, 9, 10, 11]\<rparr>),
        (''h.0.proj_v_dense_layer.bias'', \<lparr>shape = [4], elements = [12, 13, 14, 15]\<rparr>)] []
       (example_falcon_config 8 2 1) = Inr merged \<and>
     (\<exists>out. qkv_converter_hf_to_cs ''h.0.query_key_value.bias'' ''h.0.proj_q_dense_layer.bias'' merged []
         (example_falcon_config 8 2 1) = Inr out \<and>
       map_of out ''h.0.proj_q_dense_layer.bias'' =
         Some \<lparr>shape = [8], elements = [0, 1, 2, 3, 4, 5, 6, 7 :: int]\<rparr> \<and>
       map_of out ''h.0.proj_k_dense_layer.bias'' = Some \<lparr>shape = [4], elements = [8, 9, 10, 11]\<rparr> \<and>
       map_of out ''h.0.proj_v_dense_layer.bias'' = Some \<lparr>shape = [4], elements = [12, 13, 14, 15]\<rparr>))"
  using qkv_round_trip [where cs = "example_falcon_config 8 2 1" and hidden = 8 and g = 1 and s = 2
      and hs = 4 and q_key = "''h.0.proj_q_dense_layer.bias''"
      and hf_key = "''h.0.query_key_value.bias''" and rest = "[]" and cols = 1
      and hf_sd = "[(''h.0.query_key_value.bias'',
         \<lparr>shape = [16], elements = [0, 1, 2, 3, 4, 5, 6, 7, 8, 9, 10, 11, 12, 13, 14, 15 :: int]\<rparr>)]"
      and xs = "[0, 1, 2, 3, 4, 5, 6, 7, 8, 9, 10, 11, 12, 13, 14, 15 :: int]"
      and sd_a = "[]" and sd_b = "[]"
      and cs_sd = "[(''h.0.proj_q_dense_layer.bias'', \<lparr>shape = [8], elements = [0, 1, 2, 3, 4, 5, 6, 7 :: int]\<rparr>),
        (''h.0.proj_k_dense_layer.bias'', \<lparr>shape = [4], elements = [8, 9, 10, 11]\<rparr>),
        (''h.0.proj_v_dense_layer.bias'', \<lparr>shape = [4], elements = [12, 13, 14, 15]\<rparr>)]"
      and qs = "[0, 1, 2, 3, 4, 5, 6, 7 :: int]" and ks = "[8, 9, 10, 11]" and vs = "[12, 13, 14, 15]"]
  by (simp add: model_size_example_falcon proj_key_example endswith_def)

text \<open>
  With an odd \<open>head_size\<close> the packed tensor is not split: for \<open>hidden_size = 3\<close>, one head
  and one group, a bias of \<open>3 * (1 * 2 + 1) = 9\<close> elements has the size the converter
  asks for, and the view \<open>(1, 1, 2, -1)\<close> of the three elements of its query head is
  refused.
\<close>

theorem qkv_odd_head_size_counterexample:
  "qkv_converter_hf_to_cs ''h.0.query_key_value.bias'' ''h.0.proj_q_dense_layer.bias''
     [(''h.0.query_key_value.bias'', \<lparr>shape = [9], elements = [0, 1, 2, 3, 4, 5, 6, 7, 8 :: int]\<rparr>)] []
     (example_falcon_config 3 1 1) = Inl (RuntimeError ''shape is invalid for input size'')"
  by code_simp

section \<open>llama.py: the helpers in closed form\<close>

lemma py_slice_rotary:
  assumes "r \<le> d"
  shows "py_slice 1 None (Some (int r)) \<lparr>shape = n # d # rest, elements = xs\<rparr> =
      \<lparr>shape = n # r # rest, elements = map_blocks n (d * prod_list rest) (take (r * prod_list rest)) xs\<rparr>"
  using assms slice_rotary [OF assms, of n rest xs] by (simp add: py_slice_def clip_bound_def)

lemma py_slice_pass:
  assumes "r \<le> d"
  shows "py_slice 1 (Some (int r)) None \<lparr>shape = n # d # rest, elements = xs\<rparr> =
      \<lparr>shape = n # (d - r) # rest,
       elements = map_blocks n (d * prod_list rest)
         (\<lambda>b. take ((d - r) * prod_list rest) (drop (r * prod_list rest) b)) xs\<rparr>"
  using assms slice_pass [OF assms, of n rest xs] by (simp add: py_slice_def clip_bound_def)

lemma interleave_helper_weight:
  fixes xs :: "'a list"
  assumes rot: "model_get cs ''rotary_dim'' = Inr (CInt (int r))" and ev: "even r" and rd: "r \<le> d"
    and pos: "0 < n" "0 < h" and len: "length xs = n * (d * h)"
  shows "interleave_helper \<lparr>shape = [n, d, h], elements = xs\<rparr> cs =
         Inr \<lparr>shape = [n, d, h], elements = map_blocks n (d * h) (rotate_rows r h) xs\<rparr>"
proof -
  let ?E0 = "map_blocks n (d * h) (take (r * h)) xs"
  let ?E1 = "map_blocks n (r * h) (transpose_block 2 (r div 2) h) ?E0"
  have l0: "length ?E0 = n * (r * h)" using rd len by (rule length_take_blocks)
  have l1: "length ?E1 = n * (r * h)"
    using length_transpose_blocks [of ?E0 n 2 "r div 2" h] l0 ev by (simp add: half_twice)
  have s1: "py_slice 1 None (Some (int r)) \<lparr>shape = [n, d, h], elements = xs\<rparr> = \<lparr>shape = [n, r, h], elements = ?E0\<rparr>"
    using py_slice_rotary [OF rd, of n "[h]" xs] by simp
  have s2: "py_slice 1 (Some (int r)) None \<lparr>shape = [n, d, h], elements = xs\<rparr> =
      \<lparr>shape = [n, d - r, h], elements = map_blocks n (d * h) (\<lambda>b. take ((d - r) * h) (drop (r * h) b)) xs\<rparr>"
    using py_slice_pass [OF rd, of n "[h]" xs] by simp
  have r1: "reshape [int n, 2, - 1, int h] \<lparr>shape = [n, r, h], elements = ?E0\<rparr> =
      Inr \<lparr>shape = [n, 2, r div 2, h], elements = ?E0\<rparr>"
    using reshape_infer [of "[n, 2]" "[h]" ?E0 "r div 2" "[n, r, h]"] pos l0 ev by simp
  have sw: "swap_dims 1 \<lparr>shape = [n, 2, r div 2, h], elements = ?E0\<rparr> =
      \<lparr>shape = [n, r div 2, 2, h], elements = ?E1\<rparr>"
    using swap_dims_1 [of n 2 "r div 2" "[h]" ?E0] ev by (simp add: half_twice)
  have r2: "reshape [int n, - 1, int h] \<lparr>shape = [n, r div 2, 2, h], elements = ?E1\<rparr> =
      Inr \<lparr>shape = [n, r, h], elements = ?E1\<rparr>"
    using reshape_infer [of "[n]" "[h]" ?E1 r "[n, r div 2, 2, h]"] pos l1 by simp
  have ct: "cat 1 [\<lparr>shape = [n, r, h], elements = ?E1\<rparr>,
      \<lparr>shape = [n, d - r, h], elements = map_blocks n (d * h) (\<lambda>b. take ((d - r) * h) (drop (r * h) b)) xs\<rparr>] =
      Inr \<lparr>shape = [n, d, h], elements = map_blocks n (d * h) (rotate_rows r h) xs\<rparr>"
    using cat_rotated [of 2 "r div 2" r d xs n "[h]"] ev rd len by (simp add: rotate_rows_def [abs_def])
  show ?thesis
    using s1 s2 r1 sw r2 ct by (simp add: interleave_helper_def rot slice_bound_def)
qed

lemma interleave_helper_bias:
  fixes xs :: "'a list"
  assumes rot: "model_get cs ''rotary_dim'' = Inr (CInt (int r))" and ev: "even r" and rd: "r \<le> d"
    and pos: "0 < n" and len: "length xs = n * d"
  shows "interleave_helper \<lparr>shape = [n, d], elements = xs\<rparr> cs =
         Inr \<lparr>shape = [n, d], elements = map_blocks n d (rotate_rows r 1) xs\<rparr>"
proof -
  let ?E0 = "map_blocks n d (take r) xs"
  let ?E1 = "map_blocks n r (transpose_block 2 (r div 2) 1) ?E0"
  have l0: "length ?E0 = n * r" using length_take_blocks [of r d xs n 1] rd len by simp
  have l1: "length ?E1 = n * r"
    using length_transpose_blocks [of ?E0 n 2 "r div 2" 1] l0 ev by simp
  have s1: "py_slice 1 None (Some (int r)) \<lparr>shape = [n, d], elements = xs\<rparr> = \<lparr>shape = [n, r], elements = ?E0\<rparr>"
    using py_slice_rotary [OF rd, of n "[]" xs] by simp
  have s2: "py_slice 1 (Some (int r)) None \<lparr>shape = [n, d], elements = xs\<rparr> =
      \<lparr>shape = [n, d - r], elements = map_blocks n d (\<lambda>b. take (d - r) (drop r b)) xs\<rparr>"
    using py_slice_pass [OF rd, of n "[]" xs] by simp
  have r1: "reshape [int n, 2, - 1] \<lparr>shape = [n, r], elements = ?E0\<rparr> =
      Inr \<lparr>shape = [n, 2, r div 2], elements = ?E0\<rparr>"
    using reshape_infer [of "[n, 2]" "[]" ?E0 "r div 2" "[n, r]"] pos l0 ev by simp
  have sw: "swap_dims 1 \<lparr>shape = [n, 2, r div 2], elements = ?E0\<rparr> =
      \<lparr>shape = [n, r div 2, 2], elements = ?E1\<rparr>"
    using swap_dims_1 [of n 2 "r div 2" "[]" ?E0] ev by simp
  have r2: "reshape [int n, - 1] \<lparr>shape = [n, r div 2, 2], elements = ?E1\<rparr> =
      Inr \<lparr>shape = [n, r], elements = ?E1\<rparr>"
    using reshape_infer [of "[n]" "[]" ?E1 r "[n, r div 2, 2]"] pos l1 by simp
  have ct: "cat 1 [\<lparr>shape = [n, r], elements = ?E1\<rparr>,
      \<lparr>shape = [n, d - r], elements = map_blocks n d (\<lambda>b. take (d - r) (drop r b)) xs\<rparr>] =
      Inr \<lparr>shape = [n, d], elements = map_blocks n d (rotate_rows r 1) xs\<rparr>"
    using cat_rotated [of 2 "r div 2" r d xs n "[]"] ev rd len by (simp add: rotate_rows_def [abs_def])
  show ?thesis
    using s1 s2 r1 sw r2 ct by (simp add: interleave_helper_def rot slice_bound_def)
qed

lemma reverse_interleave_helper_weight:
  fixes xs :: "'a list"
  assumes rot: "model_get cs ''rotary_dim'' = Inr (CInt (int r))" and ev: "even r" and rd: "r \<le> d"
    and pos: "0 < n" "0 < h" and len: "length xs = n * (d * h)"
  shows "reverse_interleave_helper \<lparr>shape = [n * d, h], elements = xs\<rparr> cs (CInt (int n)) =
         Inr \<lparr>shape = [n, d, h], elements = map_blocks n (d * h) (unrotate_rows r h) xs\<rparr>"
proof -
  let ?E0 = "map_blocks n (d * h) (take (r * h)) xs"
  let ?E1 = "map_blocks n (r * h) (transpose_block (r div 2) 2 h) ?E0"
  have l0: "length ?E0 = n * (r * h)" using rd len by (rule length_take_blocks)
  have l1: "length ?E1 = n * (r * h)"
    using length_transpose_blocks [of ?E0 n "r div 2" 2 h] l0 ev by (simp add: half_twice)
  have r0: "reshape [int n, - 1, int h] \<lparr>shape = [n * d, h], elements = xs\<rparr> =
      Inr \<lparr>shape = [n, d, h], elements = xs\<rparr>"
    using reshape_infer [of "[n]" "[h]" xs d "[n * d, h]"] pos len by simp
  have s1: "py_slice 1 None (Some (int r)) \<lparr>shape = [n, d, h], elements = xs\<rparr> = \<lparr>shape = [n, r, h], elements = ?E0\<rparr>"
    using py_slice_rotary [OF rd, of n "[h]" xs] by simp
  have s2: "py_slice 1 (Some (int r)) None \<lparr>shape = [n, d, h], elements = xs\<rparr> =
      \<lparr>shape = [n, d - r, h], elements = map_blocks n (d * h) (\<lambda>b. take ((d - r) * h) (drop (r * h) b)) xs\<rparr>"
    using py_slice_pass [OF rd, of n "[h]" xs] by simp
  have r1: "reshape [int n, - 1, 2, int h] \<lparr>shape = [n, r, h], elements = ?E0\<rparr> =
      Inr \<lparr>shape = [n, r div 2, 2, h], elements = ?E0\<rparr>"
    using reshape_infer [of "[n]" "[2, h]" ?E0 "r div 2" "[n, r, h]"] pos l0 ev by simp
  have sw: "swap_dims 1 \<lparr>shape = [n, r div 2, 2, h], elements = ?E0\<rparr> =
      \<lparr>shape = [n, 2, r div 2, h], elements = ?E1\<rparr>"
    using swap_dims_1 [of n "r div 2" 2 "[h]" ?E0] ev by (simp add: half_twice)
  have r2: "reshape [int n, int r, int h] \<lparr>shape = [n, 2, r div 2, h], elements = ?E1\<rparr> =
      Inr \<lparr>shape = [n, r, h], elements = ?E1\<rparr>"
    using reshape_exact [of ?E1 "[n, r, h]" "[n, 2, r div 2, h]"] l1 by simp
  have ct: "cat 1 [\<lparr>shape = [n, r, h], elements = ?E1\<rparr>,
      \<lparr>shape = [n, d - r, h], elements = map_blocks n (d * h) (\<lambda>b. take ((d - r) * h) (drop (r * h) b)) xs\<rparr>] =
      Inr \<lparr>shape = [n, d, h], elements = map_blocks n (d * h) (unrotate_rows r h) xs\<rparr>"
    using cat_rotated [of "r div 2" 2 r d xs n "[h]"] ev rd len by (simp add: unrotate_rows_def [abs_def])
  show ?thesis
    using r0 s1 s2 r1 sw r2 ct by (simp add: reverse_interleave_helper_def rot slice_bound_def dim_arg_def)
qed

lemma reverse_interleave_helper_bias:
  fixes xs :: "'a list"
  assumes rot: "model_get cs ''rotary_dim'' = Inr (CInt (int r))" and ev: "even r" and rd: "r \<le> d"
    and pos: "0 < n" and len: "length xs = n * d"
  shows "reverse_interleave_helper \<lparr>shape = [n * d], elements = xs\<rparr> cs (CInt (int n)) =
         Inr \<lparr>shape = [n, d], elements = map_blocks n d (unrotate_rows r 1) xs\<rparr>"
proof -
  let ?E0 = "map_blocks n d (take r) xs"
  let ?E1 = "map_blocks n r (transpose_block (r div 2) 2 1) ?E0"
  have l0: "length ?E0 = n * r" using length_take_blocks [of r d xs n 1] rd len by simp
  have l1: "length ?E1 = n * r"
    using length_transpose_blocks [of ?E0 n "r div 2" 2 1] l0 ev by simp
  have r0: "reshape [int n, - 1] \<lparr>shape = [n * d], elements = xs\<rparr> =
      Inr \<lparr>shape = [n, d], elements = xs\<rparr>"
    using reshape_infer [of "[n]" "[]" xs d "[n * d]"] pos len by simp
  have s1: "py_slice 1 None (Some (int r)) \<lparr>shape = [n, d], elements = xs\<rparr> = \<lparr>shape = [n, r], elements = ?E0\<rparr>"
    using py_slice_rotary [OF rd, of n "[]" xs] by simp
  have s2: "py_slice 1 (Some (int r)) None \<lparr>shape = [n, d], elements = xs\<rparr> =
      \<lparr>shape = [n, d - r], elements = map_blocks n d (\<lambda>b. take (d - r) (drop r b)) xs\<rparr>"
    using py_slice_pass [OF rd, of n "[]" xs] by simp
  have r1: "reshape [int n, - 1, 2] \<lparr>shape = [n, r], elements = ?E0\<rparr> =
      Inr \<lparr>shape = [n, r div 2, 2], elements = ?E0\<rparr>"
    using reshape_infer [of "[n]" "[2]" ?E0 "r div 2" "[n, r]"] pos l0 ev by simp
  have sw: "swap_dims 1 \<lparr>shape = [n, r div 2, 2], elements = ?E0\<rparr> =
      \<lparr>shape = [n, 2, r div 2], elements = ?E1\<rparr>"
    using swap_dims_1 [of n "r div 2" 2 "[]" ?E0] ev by simp
  have r2: "reshape [int n, - 1] \<lparr>shape = [n, 2, r div 2], elements = ?E1\<rparr> =
      Inr \<lparr>shape = [n, r], elements = ?E1\<rparr>"
    using reshape_infer [of "[n]" "[]" ?E1 r "[n, 2, r div 2]"] pos l1 by simp
  have ct: "cat 1 [\<lparr>shape = [n, r], elements = ?E1\<rparr>,
      \<lparr>shape = [n, d - r], elements = map_blocks n d (\<lambda>b. take (d - r) (drop r b)) xs\<rparr>] =
      Inr \<lparr>shape = [n, d], elements = map_blocks n d (unrotate_rows r 1) xs\<rparr>"
    using cat_rotated [of "r div 2" 2 r d xs n "[]"] ev rd len by (simp add: unrotate_rows_def [abs_def])
  show ?thesis
    using r0 s1 s2 r1 sw r2 ct by (simp add: reverse_interleave_helper_def rot slice_bound_def dim_arg_def)
qed

lemma floordiv_heads: "0 < n \<Longrightarrow> floordiv (int (n * d)) (CInt (int n)) = Inr (CInt (int d))"
  by (simp add: floordiv_def zdiv_int [symmetric])

lemma interleave_tensor_hf_to_cs_weight:
  fixes xs :: "'a list"
  assumes rot: "model_get cs ''rotary_dim'' = Inr (CInt (int r))"
    and ev: "even r" and rd: "r \<le> d" and pos: "0 < n" "0 < h" and len: "length xs = n * (d * h)"
  shows "interleave_tensor \<lparr>shape = [n * d, h], elements = xs\<rparr> (CInt (int n)) 0 cs =
         Inr \<lparr>shape = [n * d, h], elements = map_blocks n (d * h) (rotate_rows r h) xs\<rparr>"
proof -
  let ?ys = "map_blocks n (d * h) (rotate_rows r h) xs"
  have fd: "floordiv (int (n * d)) (CInt (int n)) = Inr (CInt (int d))" using pos(1) by (rule floordiv_heads)
  have r0: "reshape [int n, int d, int h] \<lparr>shape = [n * d, h], elements = xs\<rparr> =
      Inr \<lparr>shape = [n, d, h], elements = xs\<rparr>"
    using reshape_exact [of xs "[n, d, h]" "[n * d, h]"] len by simp
  have ih: "interleave_helper \<lparr>shape = [n, d, h], elements = xs\<rparr> cs = Inr \<lparr>shape = [n, d, h], elements = ?ys\<rparr>"
    using rot ev rd pos len by (rule interleave_helper_weight)
  have ly: "length ?ys = n * (d * h)" using ev rd len by (rule length_rotate_blocks)
  have r1: "reshape [int (n * d), int h] \<lparr>shape = [n, d, h], elements = ?ys\<rparr> =
      Inr \<lparr>shape = [n * d, h], elements = ?ys\<rparr>"
    using reshape_exact [of ?ys "[n * d, h]" "[n, d, h]"] ly by simp
  show ?thesis
    using fd r0 ih r1 by (simp add: interleave_tensor_def dim_arg_def)
qed

lemma interleave_tensor_hf_to_cs_bias:
  fixes xs :: "'a list"
  assumes rot: "model_get cs ''rotary_dim'' = Inr (CInt (int r))"
    and ev: "even r" and rd: "r \<le> d" and pos: "0 < n" and len: "length xs = n * d"
  shows "interleave_tensor \<lparr>shape = [n * d], elements = xs\<rparr> (CInt (int n)) 0 cs =
         Inr \<lparr>shape = [n * d], elements = map_blocks n d (rotate_rows r 1) xs\<rparr>"
proof -
  let ?ys = "map_blocks n d (rotate_rows r 1) xs"
  have fd: "floordiv (int (n * d)) (CInt (int n)) = Inr (CInt (int d))" using pos by (rule floordiv_heads)
  have r0: "reshape [int n, int d] \<lparr>shape = [n * d], elements = xs\<rparr> =
      Inr \<lparr>shape = [n, d], elements = xs\<rparr>"
    using reshape_exact [of xs "[n, d]" "[n * d]"] len by simp
  have ih: "interleave_helper \<lparr>shape = [n, d], elements = xs\<rparr> cs = Inr \<lparr>shape = [n, d], elements = ?ys\<rparr>"
    using rot ev rd pos len by (rule interleave_helper_bias)
  have ly: "length ?ys = n * d" using length_rotate_blocks [of r d xs n 1] ev rd len by simp
  have r1: "reshape [int (n * d)] \<lparr>shape = [n, d], elements = ?ys\<rparr> =
      Inr \<lparr>shape = [n * d], elements = ?ys\<rparr>"
    using reshape_exact [of ?ys "[n * d]" "[n, d]"] ly by simp
  show ?thesis
    using fd r0 ih r1 by (simp add: interleave_tensor_def dim_arg_def)
qed

lemma interleave_tensor_cs_to_hf_weight:
  fixes xs :: "'a list"
  assumes rot: "model_get cs ''rotary_dim'' = Inr (CInt (int r))"
    and ev: "even r" and rd: "r \<le> d" and pos: "0 < n" "0 < h" and len: "length xs = n * (d * h)"
  shows "interleave_tensor \<lparr>shape = [n * d, h], elements = xs\<rparr> (CInt (int n)) 1 cs =
         Inr \<lparr>shape = [n * d, h], elements = map_blocks n (d * h) (unrotate_rows r h) xs\<rparr>"
proof -
  let ?ys = "map_blocks n (d * h) (unrotate_rows r h) xs"
  have ih: "reverse_interleave_helper \<lparr>shape = [n * d, h], elements = xs\<rparr> cs (CInt (int n)) =
      Inr \<lparr>shape = [n, d, h], elements = ?ys\<rparr>"
    using rot ev rd pos len by (rule reverse_interleave_helper_weight)
  have ly: "length ?ys = n * (d * h)" using ev rd len by (rule length_unrotate_blocks)
  have r1: "reshape [int (n * d), int h] \<lparr>shape = [n, d, h], elements = ?ys\<rparr> =
      Inr \<lparr>shape = [n * d, h], elements = ?ys\<rparr>"
    using reshape_exact [of ?ys "[n * d, h]" "[n, d, h]"] ly by simp
  show ?thesis
    using ih r1 by (simp add: interleave_tensor_def)
qed

lemma interleave_tensor_cs_to_hf_bias:
  fixes xs :: "'a list"
  assumes rot: "model_get cs ''rotary_dim'' = Inr (CInt (int r))"
    and ev: "even r" and rd: "r \<le> d" and pos: "0 < n" and len: "length xs = n * d"
  shows "interleave_tensor \<lparr>shape = [n * d], elements = xs\<rparr> (CInt (int n)) 1 cs =
         Inr \<lparr>shape = [n * d], elements = map_blocks n d (unrotate_rows r 1) xs\<rparr>"
proof -
  let ?ys = "map_blocks n d (unrotate_rows r 1) xs"
  have ih: "reverse_interleave_helper \<lparr>shape = [n * d], elements = xs\<rparr> cs (CInt (int n)) =
      Inr \<lparr>shape = [n, d], elements = ?ys\<rparr>"
    using rot ev rd pos len by (rule reverse_interleave_helper_bias)
  have ly: "length ?ys = n * d" using length_unrotate_blocks [of r d xs n 1] ev rd len by simp
  have r1: "reshape [int (n * d)] \<lparr>shape = [n, d], elements = ?ys\<rparr> =
      Inr \<lparr>shape = [n * d], elements = ?ys\<rparr>"
    using reshape_exact [of ?ys "[n * d]" "[n, d]"] ly by simp
  show ?thesis
    using ih r1 by (simp add: interleave_tensor_def)
qed

text \<open>
  Both directions, for a weight of \<open>h \<ge> 1\<close> columns (\<open>rest = [h]\<close>) and for a bias
  (\<open>rest = []\<close>): the conversion to CS rotates the rotary rows of every head, and the
  conversion to HF of the result gives the tensor back.
\<close>

lemma interleave_tensor_round_trip:
  fixes xs :: "'a list"
  assumes rot: "model_get cs ''rotary_dim'' = Inr (CInt (int r))"
    and ev: "even r" and rd: "r \<le> d" and pos: "0 < n"
    and kind: "rest = [h] \<and> 0 < h \<or> rest = []"
    and len: "length xs = n * d * prod_list rest"
  shows "interleave_tensor \<lparr>shape = n * d # rest, elements = xs\<rparr> (CInt (int n)) 0 cs =
           Inr \<lparr>shape = n * d # rest,
                elements = map_blocks n (d * prod_list rest) (rotate_rows r (prod_list rest)) xs\<rparr>"
    and "interleave_tensor
           \<lparr>shape = n * d # rest,
            elements = map_blocks n (d * prod_list rest) (rotate_rows r (prod_list rest)) xs\<rparr>
           (CInt (int n)) 1 cs =
           Inr \<lparr>shape = n * d # rest, elements = xs\<rparr>"
proof -
  let ?c = "prod_list rest"
  let ?ys = "map_blocks n (d * ?c) (rotate_rows r ?c) xs"
  have len': "length xs = n * (d * ?c)" using len by (simp add: mult.assoc)
  have ly: "length ?ys = n * (d * ?c)" using ev rd len' by (rule length_rotate_blocks)
  have undo: "map_blocks n (d * ?c) (unrotate_rows r ?c) ?ys = xs"
    using ev rd len' by (rule unrotate_rotate_blocks)
  show "interleave_tensor \<lparr>shape = n * d # rest, elements = xs\<rparr> (CInt (int n)) 0 cs =
           Inr \<lparr>shape = n * d # rest, elements = ?ys\<rparr>"
    using kind
  proof
    assume "rest = [h] \<and> 0 < h"
    then show ?thesis
      using interleave_tensor_hf_to_cs_weight [OF rot ev rd pos, of h xs] len' by simp
  next
    assume "rest = []"
    then show ?thesis
      using interleave_tensor_hf_to_cs_bias [OF rot ev rd pos, of xs] len' by simp
  qed
  show "interleave_tensor \<lparr>shape = n * d # rest, elements = ?ys\<rparr> (CInt (int n)) 1 cs =
           Inr \<lparr>shape = n * d # rest, elements = xs\<rparr>"
    using kind
  proof
    assume "rest = [h] \<and> 0 < h"
    then show ?thesis
      using interleave_tensor_cs_to_hf_weight [OF rot ev rd pos, of h ?ys] ly undo by simp
  next
    assume "rest = []"
    then show ?thesis
      using interleave_tensor_cs_to_hf_bias [OF rot ev rd pos, of ?ys] ly undo by simp
  qed
qed

lemma model_get_entry:
  assumes "map_of cs ''model'' = Some (CDict model)" and "map_of model name = Some c"
  shows "model_get cs name = Inr c"
  using assms by (simp add: model_get_def cfg_get_def sub_get_def)

lemma convert_with_interleaving_query_tensor:
  assumes "map_of old_sd old_key = Some t" and "model_get cs ''num_heads'' = Inr heads"
    and "interleave_tensor t heads from_index cs = Inr t'"
  shows "convert_with_interleaving_query old_key new_key old_sd new_sd from_index cs =
         Inr (AList.update new_key t' new_sd)"
  using assms by (simp add: convert_with_interleaving_query_def)

lemma convert_with_interleaving_key_heads:
  assumes "map_of cs ''model'' = Some (CDict model)"
    and "map_of model ''attention_module'' = None \<or>
         map_of model ''attention_module'' = Some (CStr ''aiayn_attention'')"
  shows "convert_with_interleaving_key old_key new_key old_sd new_sd from_index cs =
         convert_with_interleaving_query old_key new_key old_sd new_sd from_index cs"
  using assms by (auto simp add: convert_with_interleaving_key_def cfg_get_def py_eq_def num_val_def)

lemma convert_with_interleaving_key_groups:
  assumes "map_of cs ''model'' = Some (CDict model)"
    and "map_of model ''attention_module'' = Some (CStr ''multiquery_attention'')"
    and "map_of model ''extra_attention_params'' = Some (CDict extra)"
    and "map_of extra ''num_kv_groups'' = Some groups"
    and "map_of old_sd old_key = Some t"
    and "interleave_tensor t groups from_index cs = Inr t'"
  shows "convert_with_interleaving_key old_key new_key old_sd new_sd from_index cs =
         Inr (AList.update new_key t' new_sd)"
  using assms
  by (simp add: convert_with_interleaving_key_def cfg_get_def sub_get_def py_eq_def num_val_def)

text \<open>
  C1. A weight of \<open>n\<close> heads of \<open>d\<close> rows of \<open>h \<ge> 1\<close> elements, stored with the shape
  \<open>(n * d, h)\<close>, or a bias stored with the shape \<open>(n * d)\<close>, is converted from HF to CS
  and the result, read from the state dict it was written to, from CS to HF, for an
  even \<open>rotary_dim\<close> with \<open>0 \<le> rotary_dim \<le> d\<close> and \<open>n \<ge> 1\<close>. The converter is
  \<open>convert_with_interleaving_query\<close>, where \<open>n\<close> is \<open>num_heads\<close>, or
  \<open>convert_with_interleaving_key\<close>, where \<open>n\<close> is \<open>num_heads\<close> with \<open>aiayn_attention\<close> and
  the number of key/value groups with \<open>multiquery_attention\<close>. Both conversions return:
  the first writes the tensor of which every head has its rotary rows interleaved, and
  the second writes the original tensor, shape and elements.
\<close>

theorem interleave_round_trip:
  fixes xs :: "'a list"
  assumes "map_of cs ''model'' = Some (CDict model)"
    and "map_of model ''rotary_dim'' = Some (CInt (int r))"
    and "even r" and "r \<le> d" and "1 \<le> n"
    and "rest = [h] \<and> 1 \<le> h \<or> rest = []"
    and "length xs = n * d * prod_list rest"
    and "map_of hf_sd hf_key = Some \<lparr>shape = n * d # rest, elements = xs\<rparr>"
    and "conv = convert_with_interleaving_query \<and> map_of model ''num_heads'' = Some (CInt (int n)) \<or>
         conv = convert_with_interleaving_key \<and> map_of model ''num_heads'' = Some (CInt (int n)) \<and>
           (map_of model ''attention_module'' = None \<or>
            map_of model ''attention_module'' = Some (CStr ''aiayn_attention'')) \<or>
         conv = convert_with_interleaving_key \<and>
           map_of model ''attention_module'' = Some (CStr ''multiquery_attention'') \<and>
           map_of model ''extra_attention_params'' = Some (CDict extra) \<and>
           map_of extra ''num_kv_groups'' = Some (CInt (int n))"
  shows "conv hf_key cs_key hf_sd cs_sd 0 cs =
           Inr (AList.update cs_key
                  \<lparr>shape = n * d # rest,
                   elements = map_blocks n (d * prod_list rest) (rotate_rows r (prod_list rest)) xs\<rparr>
                  cs_sd) \<and>
         conv cs_key hf_key
           (AList.update cs_key
              \<lparr>shape = n * d # rest,
               elements = map_blocks n (d * prod_list rest) (rotate_rows r (prod_list rest)) xs\<rparr>
              cs_sd) out_sd 1 cs =
           Inr (AList.update hf_key \<lparr>shape = n * d # rest, elements = xs\<rparr> out_sd)"
proof -
  let ?t = "\<lparr>shape = n * d # rest, elements = xs\<rparr>"
  let ?t' = "\<lparr>shape = n * d # rest,
              elements = map_blocks n (d * prod_list rest) (rotate_rows r (prod_list rest)) xs\<rparr>"
  let ?sd = "AList.update cs_key ?t' cs_sd"
  have rot: "model_get cs ''rotary_dim'' = Inr (CInt (int r))"
    using assms(1,2) by (rule model_get_entry)
  have pos: "0 < n" using assms(5) by simp
  have kind: "rest = [h] \<and> 0 < h \<or> rest = []" using assms(6) by auto
  have to_cs: "interleave_tensor ?t (CInt (int n)) 0 cs = Inr ?t'"
    and to_hf: "interleave_tensor ?t' (CInt (int n)) 1 cs = Inr ?t"
    using interleave_tensor_round_trip [OF rot assms(3,4) pos kind assms(7)] by simp_all
  have new: "map_of ?sd cs_key = Some ?t'" by (simp add: update_conv')
  have by_heads: "convert_with_interleaving_query hf_key cs_key hf_sd cs_sd 0 cs = Inr ?sd \<and>
      convert_with_interleaving_query cs_key hf_key ?sd out_sd 1 cs = Inr (AList.update hf_key ?t out_sd)"
    if heads: "map_of model ''num_heads'' = Some (CInt (int n))"
  proof -
    have h: "model_get cs ''num_heads'' = Inr (CInt (int n))"
      using assms(1) heads by (rule model_get_entry)
    show ?thesis
      using convert_with_interleaving_query_tensor [OF assms(8) h to_cs]
        convert_with_interleaving_query_tensor [OF new h to_hf] by simp
  qed
  from assms(9) consider
      (query) "conv = convert_with_interleaving_query" "map_of model ''num_heads'' = Some (CInt (int n))"
    | (key_heads) "conv = convert_with_interleaving_key" "map_of model ''num_heads'' = Some (CInt (int n))"
        "map_of model ''attention_module'' = None \<or>
         map_of model ''attention_module'' = Some (CStr ''aiayn_attention'')"
    | (key_groups) "conv = convert_with_interleaving_key"
        "map_of model ''attention_module'' = Some (CStr ''multiquery_attention'')"
        "map_of model ''extra_attention_params'' = Some (CDict extra)"
        "map_of extra ''num_kv_groups'' = Some (CInt (int n))"
    by blast
  then show ?thesis
  proof cases
    case query
    then show ?thesis using by_heads by simp
  next
    case key_heads
    show ?thesis
      unfolding key_heads(1) convert_with_interleaving_key_heads [OF assms(1) key_heads(3)]
      using by_heads [OF key_heads(2)] .
  next
    case key_groups
    show ?thesis
      unfolding key_groups(1)
      using convert_with_interleaving_key_groups [OF assms(1) key_groups(2,3,4) assms(8) to_cs]
        convert_with_interleaving_key_groups [OF assms(1) key_groups(2,3,4) new to_hf] by simp
  qed
qed

lemma rotated_examples:
  "map_blocks 2 12 (rotate_rows 4 2) (map int [0..<24]) =
     [0, 1, 4, 5, 2, 3, 6, 7, 8, 9, 10, 11, 12, 13, 16, 17, 14, 15, 18, 19, 20, 21, 22, 23]"
  "map_blocks 2 6 (rotate_rows 4 (Suc 0)) (map int [0..<12]) =
     [0, 2, 1, 3, 4, 5, 6, 8, 7, 9, 10, 11]"
  by code_simp+

theorem interleave_round_trip_witness:
  "(convert_with_interleaving_query ''q_proj.weight'' ''proj_q_dense_layer.weight''
      [(''q_proj.weight'', \<lparr>shape = [12, 2], elements = map int [0..<24]\<rparr>)] [] 0
      (example_grouped_config 2 2 4) =
    Inr [(''proj_q_dense_layer.weight'',
          \<lparr>shape = [12, 2],
           elements = [0, 1, 4, 5, 2, 3, 6, 7, 8, 9, 10, 11,
                       12, 13, 16, 17, 14, 15, 18, 19, 20, 21, 22, 23]\<rparr>)] \<and>
    convert_with_interleaving_query ''proj_q_dense_layer.weight'' ''q_proj.weight''
      [(''proj_q_dense_layer.weight'',
        \<lparr>shape = [12, 2],
         elements = [0, 1, 4, 5, 2, 3, 6, 7, 8, 9, 10, 11,
                     12, 13, 16, 17, 14, 15, 18, 19, 20, 21, 22, 23]\<rparr>)] [] 1
      (example_grouped_config 2 2 4) =
    Inr [(''q_proj.weight'', \<lparr>shape = [12, 2], elements = map int [0..<24]\<rparr>)]) \<and>
   (convert_with_interleaving_key ''k_proj.bias'' ''proj_k_dense_layer.bias''
      [(''k_proj.bias'', \<lparr>shape = [12], elements = map int [0..<12]\<rparr>)] [] 0
      (example_grouped_config 4 2 4) =
    Inr [(''proj_k_dense_layer.bias'',
          \<lparr>shape = [12], elements = [0, 2, 1, 3, 4, 5, 6, 8, 7, 9, 10, 11]\<rparr>)] \<and>
    convert_with_interleaving_key ''proj_k_dense_layer.bias'' ''k_proj.bias''
      [(''proj_k_dense_layer.bias'',
        \<lparr>shape = [12], elements = [0, 2, 1, 3, 4, 5, 6, 8, 7, 9, 10, 11]\<rparr>)] [] 1
      (example_grouped_config 4 2 4) =
    Inr [(''k_proj.bias'', \<lparr>shape = [12], elements = map int [0..<12]\<rparr>)])"
  using interleave_round_trip [where cs = "example_grouped_config 2 2 4"
      and model = "[(''num_heads'', CInt 2), (''rotary_dim'', CInt 4),
        (''attention_module'', CStr ''multiquery_attention''),
        (''extra_attention_params'', CDict [(''num_kv_groups'', CInt 2)])]"
      and r = 4 and d = 6 and n = 2 and rest = "[2]" and h = 2 and xs = "map int [0..<24]"
      and hf_sd = "[(''q_proj.weight'', \<lparr>shape = [12, 2], elements = map int [0..<24]\<rparr>)]"
      and hf_key = "''q_proj.weight''" and conv = convert_with_interleaving_query
      and cs_key = "''proj_q_dense_layer.weight''" and cs_sd = "[]" and out_sd = "[]"]
    interleave_round_trip [where cs = "example_grouped_config 4 2 4"
      and model = "[(''num_heads'', CInt 4), (''rotary_dim'', CInt 4),
        (''attention_module'', CStr ''multiquery_attention''),
        (''extra_attention_params'', CDict [(''num_kv_groups'', CInt 2)])]"
      and extra = "[(''num_kv_groups'', CInt 2)]"
      and r = 4 and d = 6 and n = 2 and rest = "[]" and xs = "map int [0..<12]"
      and hf_sd = "[(''k_proj.bias'', \<lparr>shape = [12], elements = map int [0..<12]\<rparr>)]"
      and hf_key = "''k_proj.bias''" and conv = convert_with_interleaving_key
      and cs_key = "''proj_k_dense_layer.bias''" and cs_sd = "[]" and out_sd = "[]"]
  by (simp add: example_grouped_config_def rotated_examples del: upt_Suc)

text \<open>
  A negative \<open>rotary_dim\<close> is a bound counted from the end: with \<open>rotary_dim = -2\<close> the
  conversion to CS of a weight of one head of four rows takes the first two rows as the
  rotary ones and returns, and the conversion to HF asks for a view with the dimension
  \<open>-2\<close>, which torch refuses.
\<close>

lemma negative_rotary_dim:
  "convert_with_interleaving_query ''q_proj.weight'' ''proj_q_dense_layer.weight''
     [(''q_proj.weight'', \<lparr>shape = [4, 1], elements = [0, 1, 2, 3 :: int]\<rparr>)] [] 0
     [(''model'', CDict [(''num_heads'', CInt 1), (''rotary_dim'', CInt (- 2))])] =
   Inr [(''proj_q_dense_layer.weight'', \<lparr>shape = [4, 1], elements = [0, 1, 2, 3]\<rparr>)]"
  "convert_with_interleaving_query ''proj_q_dense_layer.weight'' ''q_proj.weight''
     [(''proj_q_dense_layer.weight'', \<lparr>shape = [4, 1], elements = [0, 1, 2, 3 :: int]\<rparr>)] [] 1
     [(''model'', CDict [(''num_heads'', CInt 1), (''rotary_dim'', CInt (- 2))])] =
   Inl (RuntimeError ''invalid shape dimension'')"
  by code_simp+

end
